theory Spec2Isabelle
  imports Main "HOL-Library.Word"
begin

section \<open>Platform values\<close>

text \<open>
  The vault (history.js, Starpass v2.2) runs in a browser. Its data are JavaScript
  strings (sequences of 16-bit code units), byte arrays (\<open>Uint8Array\<close>, \<open>ArrayBuffer\<close>)
  and \<open>CryptoKey\<close> handles. Exceptions are values of \<open>exn\<close>; a function that can throw
  returns \<open>exn + 'a\<close>.
\<close>

type_synonym byte = "8 word"
type_synonym bytes = "byte list"
type_synonym jsstring = "16 word list"

datatype exn = Error string | TypeError | OperationError

text \<open>An ASCII string literal of the source, as a JavaScript string.\<close>

definition lit :: "string \<Rightarrow> jsstring" where
  "lit s = map (\<lambda>c. of_nat (of_char c)) s"

subsection \<open>TextEncoder and TextDecoder\<close>

text \<open>
  \<open>new TextEncoder().encode(s)\<close> first converts \<open>s\<close> to scalar values (a surrogate
  pair becomes one supplementary code point, an unpaired surrogate becomes U+FFFD) and then
  writes each scalar value in UTF-8.
\<close>

definition is_lead_surrogate :: "16 word \<Rightarrow> bool" where
  "is_lead_surrogate u = (0xD800 \<le> unat u \<and> unat u \<le> 0xDBFF)"

definition is_trail_surrogate :: "16 word \<Rightarrow> bool" where
  "is_trail_surrogate u = (0xDC00 \<le> unat u \<and> unat u \<le> 0xDFFF)"

fun to_scalar_values :: "jsstring \<Rightarrow> nat list" where
  "to_scalar_values [] = []"
| "to_scalar_values [u] =
     (if is_lead_surrogate u \<or> is_trail_surrogate u then [0xFFFD] else [unat u])"
| "to_scalar_values (u # v # rest) =
     (if is_lead_surrogate u then
        (if is_trail_surrogate v
         then (0x10000 + (unat u - 0xD800) * 0x400 + (unat v - 0xDC00)) # to_scalar_values rest
         else 0xFFFD # to_scalar_values (v # rest))
      else if is_trail_surrogate u then 0xFFFD # to_scalar_values (v # rest)
      else unat u # to_scalar_values (v # rest))"

definition utf8_bytes :: "nat \<Rightarrow> bytes" where
  "utf8_bytes c =
     (if c < 0x80 then [of_nat c]
      else if c < 0x800 then [of_nat (0xC0 + c div 0x40), of_nat (0x80 + c mod 0x40)]
      else if c < 0x10000 then
        [of_nat (0xE0 + c div 0x1000), of_nat (0x80 + c div 0x40 mod 0x40),
         of_nat (0x80 + c mod 0x40)]
      else
        [of_nat (0xF0 + c div 0x40000), of_nat (0x80 + c div 0x1000 mod 0x40),
         of_nat (0x80 + c div 0x40 mod 0x40), of_nat (0x80 + c mod 0x40)])"

definition TextEncoder_encode :: "jsstring \<Rightarrow> bytes" where
  "TextEncoder_encode s = concat (map utf8_bytes (to_scalar_values s))"

text \<open>
  \<open>new TextDecoder().decode(buf)\<close> is the UTF-8 decoder of the Encoding Standard in its
  default mode: not fatal (a malformed sequence yields U+FFFD and decoding goes on), and
  \<open>ignoreBOM\<close> false (a leading U+FEFF is removed from the output). The decoder reads one
  byte at a time, keeping the code point under construction, the number of continuation
  bytes seen and needed, and the range allowed for the next byte; \<open>utf8_lead\<close> is its
  handling of a byte when no continuation byte is needed.
\<close>

datatype utf8_first = Ascii nat | Lead nat nat nat nat | Invalid

definition utf8_lead :: "nat \<Rightarrow> utf8_first" where
  "utf8_lead b =
     (if b \<le> 0x7F then Ascii b
      else if 0xC2 \<le> b \<and> b \<le> 0xDF then Lead (b mod 0x20) 1 0x80 0xBF
      else if 0xE0 \<le> b \<and> b \<le> 0xEF then
        Lead (b mod 0x10) 2 (if b = 0xE0 then 0xA0 else 0x80) (if b = 0xED then 0x9F else 0xBF)
      else if 0xF0 \<le> b \<and> b \<le> 0xF4 then
        Lead (b mod 0x08) 3 (if b = 0xF0 then 0x90 else 0x80) (if b = 0xF4 then 0x8F else 0xBF)
      else Invalid)"

fun utf8_decode :: "nat \<Rightarrow> nat \<Rightarrow> nat \<Rightarrow> nat \<Rightarrow> nat \<Rightarrow> bytes \<Rightarrow> nat list" where
  "utf8_decode cp seen needed lo hi [] = (if needed \<noteq> 0 then [0xFFFD] else [])"
| "utf8_decode cp seen needed lo hi (b # bs) =
     (if needed = 0 \<or> \<not> (lo \<le> unat b \<and> unat b \<le> hi) then
        (if needed \<noteq> 0 then [0xFFFD] else []) @
        (case utf8_lead (unat b) of
           Ascii c \<Rightarrow> c # utf8_decode 0 0 0 0x80 0xBF bs
         | Lead c n l h \<Rightarrow> utf8_decode c 0 n l h bs
         | Invalid \<Rightarrow> 0xFFFD # utf8_decode 0 0 0 0x80 0xBF bs)
      else if seen + 1 \<noteq> needed
        then utf8_decode (cp * 0x40 + unat b mod 0x40) (seen + 1) needed 0x80 0xBF bs
        else (cp * 0x40 + unat b mod 0x40) # utf8_decode 0 0 0 0x80 0xBF bs)"

definition strip_bom :: "nat list \<Rightarrow> nat list" where
  "strip_bom cs = (case cs of [] \<Rightarrow> [] | c # rest \<Rightarrow> if c = 0xFEFF then rest else cs)"

definition utf16_units :: "nat \<Rightarrow> jsstring" where
  "utf16_units c =
     (if c < 0x10000 then [of_nat c]
      else [of_nat (0xD800 + (c - 0x10000) div 0x400), of_nat (0xDC00 + (c - 0x10000) mod 0x400)])"

definition TextDecoder_decode :: "bytes \<Rightarrow> jsstring" where
  "TextDecoder_decode bs = concat (map utf16_units (strip_bom (utf8_decode 0 0 0 0x80 0xBF bs)))"

text \<open>\<open>String.prototype.isWellFormed\<close>: no unpaired surrogate.\<close>

fun isWellFormed :: "jsstring \<Rightarrow> bool" where
  "isWellFormed [] = True"
| "isWellFormed [u] = (\<not> is_lead_surrogate u \<and> \<not> is_trail_surrogate u)"
| "isWellFormed (u # v # rest) =
     (if is_lead_surrogate u then is_trail_surrogate v \<and> isWellFormed rest
      else \<not> is_trail_surrogate u \<and> isWellFormed (v # rest))"

definition startsWithBOM :: "jsstring \<Rightarrow> bool" where
  "startsWithBOM s = (case s of [] \<Rightarrow> False | u # _ \<Rightarrow> u = 0xFEFF)"

definition scalar :: "nat \<Rightarrow> bool" where
  "scalar c = (c < 0xD800 \<or> 0xE000 \<le> c \<and> c < 0x110000)"

subsection \<open>Web Crypto\<close>

text \<open>
  A \<open>CryptoKey\<close> is an opaque handle: the program can only pass it back to the platform.
  The handle returned by \<open>crypto.subtle.deriveKey\<close> is represented by the arguments of
  the call that made it, so two derivations with the same arguments give the same handle.
  What the cipher does with a handle is the platform's business: AES-GCM is a parameter
  \<open>W\<close> of the model, a pair of functions on handles, nonces and byte strings, where
  decryption returns \<open>None\<close> when it rejects (the platform throws an \<open>OperationError\<close>).
\<close>

datatype hash_alg = SHA_256 | SHA_512

datatype key_usage = Encrypt | Decrypt | DeriveKey | DeriveBits

record base_key =
  material :: bytes
  base_extractable :: bool
  base_usages :: "key_usage list"

record pbkdf2_params =
  kdf_salt :: bytes
  kdf_iterations :: nat
  kdf_hash :: hash_alg

record cryptokey =
  derivation :: pbkdf2_params
  base :: base_key
  aes_length :: nat
  extractable :: bool
  usages :: "key_usage list"

record webcrypto =
  gcm_encrypt :: "cryptokey \<Rightarrow> bytes \<Rightarrow> bytes \<Rightarrow> bytes"
  gcm_decrypt :: "cryptokey \<Rightarrow> bytes \<Rightarrow> bytes \<Rightarrow> bytes option"

text \<open>\<open>crypto.subtle.importKey('raw', data, {name: 'PBKDF2'}, extractable, usages)\<close>\<close>

definition subtle_importKey :: "bytes \<Rightarrow> bool \<Rightarrow> key_usage list \<Rightarrow> base_key" where
  "subtle_importKey data ext us =
     \<lparr>material = data, base_extractable = ext, base_usages = us\<rparr>"

text \<open>\<open>crypto.subtle.deriveKey(params, baseKey, {name: 'AES-GCM', length}, extractable, usages)\<close>\<close>

definition subtle_deriveKey ::
  "pbkdf2_params \<Rightarrow> base_key \<Rightarrow> nat \<Rightarrow> bool \<Rightarrow> key_usage list \<Rightarrow> cryptokey" where
  "subtle_deriveKey params raw len ext us =
     \<lparr>derivation = params, base = raw, aes_length = len, extractable = ext, usages = us\<rparr>"

text \<open>
  \<open>crypto.getRandomValues(new Uint8Array(n))\<close>: the generator is the stream of bytes it
  has yet to produce; a call takes the next \<open>n\<close> of them.
\<close>

definition getRandomValues :: "nat \<Rightarrow> (nat \<Rightarrow> byte) \<Rightarrow> bytes \<times> (nat \<Rightarrow> byte)" where
  "getRandomValues n r = (map r [0..<n], \<lambda>i. r (n + i))"

section \<open>The vault\<close>

subsection \<open>Constants and state\<close>

definition MAX_HISTORY :: nat where "MAX_HISTORY = 100"
definition SESSION_MINS :: int where "SESSION_MINS = 30"
definition PBKDF2_ITERS :: nat where "PBKDF2_ITERS = 250000"
definition VERIFY_PLAIN :: jsstring where "VERIFY_PLAIN = lit ''starpass-v2-verify''"

text \<open>
  The value \<open>{ iv, encryptedData }\<close> of \<open>aesEncrypt\<close>; the master record
  \<open>{ id: 1, salt, iv, encryptedData }\<close> of the \<open>meta\<close> store, kept under its key 1; a row
  \<open>{ type, iv, encryptedData, timestamp }\<close> of the \<open>history\<close> store.
\<close>

record sealed =
  iv :: bytes
  encryptedData :: bytes

record master_record = sealed +
  salt :: bytes

record entry = sealed +
  entry_type :: jsstring
  timestamp :: int

text \<open>
  IndexedDB. The \<open>meta\<close> store maps a key to a record. The \<open>history\<close> store has
  \<open>autoIncrement\<close> keys: \<open>keygen\<close> is its key generator, the key the next \<open>add\<close> will
  get; it starts at 1 and only grows. \<open>getAll\<close> returns the rows in the order of the list.
\<close>

record database =
  meta :: "nat \<Rightarrow> master_record option"
  history :: "(nat \<times> entry) list"
  keygen :: nat

text \<open>
  The module's variables \<open>db\<close>, \<open>_cachedKey\<close> and \<open>_keyExpiry\<close> (\<open>None\<close> is \<open>null\<close>),
  and the platform's random generator.
\<close>

record vault =
  db :: "database option"
  cachedKey :: "cryptokey option"
  keyExpiry :: "int option"
  rng :: "nat \<Rightarrow> byte"

text \<open>
  What one operation gets from outside: the passphrase dialogue and the clock.
  \<open>modal = None\<close>: \<open>showPassphraseModal\<close> is not a function. \<open>modal = Some (p, r)\<close>: the
  dialogue calls back with passphrase \<open>p\<close> (\<open>None\<close> is \<open>null\<close>, the dialogue's answer on
  cancel) and with \<open>remember\<close> truthy or not. \<open>t_lookup\<close> and \<open>t_store\<close> are \<open>Date.now()\<close>
  when the cache is read and when it is written, \<open>t_stamp\<close> is \<open>new Date()\<close>. An operation
  whose dialogue is never answered stays pending and writes nothing; the functions below
  describe the operations that come to an end, with the storage working.
\<close>

record env =
  modal :: "(jsstring option \<times> bool) option"
  t_lookup :: int
  t_store :: int
  t_stamp :: int

text \<open>The state after \<open>initDB\<close> has created the two stores: no rows, nothing cached.\<close>

definition empty_db :: database where
  "empty_db = \<lparr>meta = Map.empty, history = [], keygen = 1\<rparr>"

definition fresh_vault :: "(nat \<Rightarrow> byte) \<Rightarrow> vault" where
  "fresh_vault r = \<lparr>db = Some empty_db, cachedKey = None, keyExpiry = None, rng = r\<rparr>"

subsection \<open>Crypto\<close>

definition deriveKey :: "jsstring \<Rightarrow> bytes \<Rightarrow> cryptokey" where
  "deriveKey passphrase s =
     (let raw = subtle_importKey (TextEncoder_encode passphrase) False [DeriveKey]
      in subtle_deriveKey \<lparr>kdf_salt = s, kdf_iterations = PBKDF2_ITERS, kdf_hash = SHA_512\<rparr>
           raw 256 False [Encrypt, Decrypt])"

definition aesEncrypt ::
  "webcrypto \<Rightarrow> jsstring \<Rightarrow> cryptokey \<Rightarrow> (nat \<Rightarrow> byte) \<Rightarrow> sealed \<times> (nat \<Rightarrow> byte)" where
  "aesEncrypt W plaintext key r =
     (let (nonce, r') = getRandomValues 12 r;
          data = gcm_encrypt W key nonce (TextEncoder_encode plaintext)
      in (\<lparr>iv = nonce, encryptedData = data\<rparr>, r'))"

definition aesDecrypt :: "webcrypto \<Rightarrow> bytes \<Rightarrow> bytes \<Rightarrow> cryptokey \<Rightarrow> exn + jsstring" where
  "aesDecrypt W nonce data key =
     (case gcm_decrypt W key nonce data of
        None \<Rightarrow> Inl OperationError
      | Some buf \<Rightarrow> Inr (TextDecoder_decode buf))"

subsection \<open>Master key record\<close>

text \<open>With \<open>db\<close> still \<open>null\<close>, \<open>db.transaction\<close> throws a \<open>TypeError\<close>.\<close>

definition getMasterRecord :: "vault \<Rightarrow> exn + master_record option" where
  "getMasterRecord st = (case db st of None \<Rightarrow> Inl TypeError | Some d \<Rightarrow> Inr (meta d 1))"

definition putMasterRecord :: "master_record \<Rightarrow> vault \<Rightarrow> vault" where
  "putMasterRecord m st = st\<lparr>db := map_option (\<lambda>d. d\<lparr>meta := (meta d)(1 \<mapsto> m)\<rparr>) (db st)\<rparr>"

definition deriveAndVerify :: "webcrypto \<Rightarrow> jsstring \<Rightarrow> vault \<Rightarrow> (exn + cryptokey) \<times> vault" where
  "deriveAndVerify W passphrase st =
     (case getMasterRecord st of
        Inl e \<Rightarrow> (Inl e, st)
      | Inr None \<Rightarrow>
          (let (s, r1) = getRandomValues 32 (rng st);
               key = deriveKey passphrase s;
               (c, r2) = aesEncrypt W VERIFY_PLAIN key r1
           in (Inr key,
               putMasterRecord \<lparr>iv = iv c, encryptedData = encryptedData c, salt = s\<rparr>
                 (st\<lparr>rng := r2\<rparr>)))
      | Inr (Some record) \<Rightarrow>
          (let key = deriveKey passphrase (salt record);
               attempt =
                 (case aesDecrypt W (iv record) (encryptedData record) key of
                    Inl e \<Rightarrow> Inl e
                  | Inr plain \<Rightarrow> if plain \<noteq> VERIFY_PLAIN then Inl (Error ''mismatch'') else Inr key)
           in (case attempt of
                 Inl e \<Rightarrow> (Inl (Error ''incorrect-password''), st)
               | Inr k \<Rightarrow> (Inr k, st))))"

subsection \<open>Key cache\<close>

text \<open>In \<open>_keyExpiry > Date.now()\<close> a \<open>null\<close> expiry counts as 0.\<close>

definition getCachedKey :: "int \<Rightarrow> vault \<Rightarrow> cryptokey option" where
  "getCachedKey now st =
     (case cachedKey st of
        None \<Rightarrow> None
      | Some k \<Rightarrow> if (case keyExpiry st of None \<Rightarrow> 0 | Some t \<Rightarrow> t) > now then Some k else None)"

definition setCachedKey :: "cryptokey \<Rightarrow> int \<Rightarrow> vault \<Rightarrow> vault" where
  "setCachedKey k now st = st\<lparr>cachedKey := Some k, keyExpiry := Some (now + SESSION_MINS * 60000)\<rparr>"

definition clearKeyCache :: "vault \<Rightarrow> vault" where
  "clearKeyCache st = st\<lparr>cachedKey := None, keyExpiry := None\<rparr>"

subsection \<open>Master key: cache first, then prompt\<close>

definition getMasterKey :: "webcrypto \<Rightarrow> env \<Rightarrow> vault \<Rightarrow> cryptokey option \<times> vault" where
  "getMasterKey W e st =
     (case getCachedKey (t_lookup e) st of
        Some cached \<Rightarrow> (Some cached, st)
      | None \<Rightarrow>
          (case modal e of
             None \<Rightarrow> (None, st)
           | Some (passphrase, remember) \<Rightarrow>
               (case passphrase of
                  None \<Rightarrow> (None, st)
                | Some p \<Rightarrow>
                    if p = [] then (None, st)
                    else (case deriveAndVerify W p st of
                            (Inl err, st') \<Rightarrow> (None, st')
                          | (Inr key, st') \<Rightarrow>
                              (Some key,
                               if remember then setCachedKey key (t_store e) st' else st')))))"

subsection \<open>History limit and saving\<close>

definition store_delete :: "nat \<Rightarrow> database \<Rightarrow> database" where
  "store_delete k d = d\<lparr>history := filter (\<lambda>row. fst row \<noteq> k) (history d)\<rparr>"

definition store_add :: "entry \<Rightarrow> database \<Rightarrow> database" where
  "store_add x d = d\<lparr>history := history d @ [(keygen d, x)], keygen := keygen d + 1\<rparr>"

definition enforceLimit :: "database \<Rightarrow> database" where
  "enforceLimit d =
     (let all = history d
      in if length all \<ge> MAX_HISTORY
         then fold (\<lambda>item. store_delete (fst item))
                (take (length all - MAX_HISTORY + 1) (sort_key fst all)) d
         else d)"

definition addToHistory :: "webcrypto \<Rightarrow> jsstring \<Rightarrow> jsstring \<Rightarrow> env \<Rightarrow> vault \<Rightarrow> vault" where
  "addToHistory W v ty e st =
     (if v = [] then st
      else if db st = None then st
      else (case getMasterKey W e st of
              (None, st1) \<Rightarrow> st1
            | (Some key, st1) \<Rightarrow>
                (case db st1 of
                   None \<Rightarrow> st1
                 | Some d \<Rightarrow>
                     (let d1 = enforceLimit d;
                          (c, r') = aesEncrypt W v key (rng st1);
                          d2 = store_add \<lparr>iv = iv c, encryptedData = encryptedData c,
                                           entry_type = ty, timestamp = t_stamp e\<rparr> d1
                      in st1\<lparr>db := Some d2, rng := r'\<rparr>))))"

subsection \<open>Revealing an entry\<close>

text \<open>
  \<open>viewItem\<close> returns the text it puts on the page, if any. Whatever is thrown inside
  its \<open>try\<close> block, a failed decryption included, ends in \<open>clearKeyCache()\<close>.
\<close>

definition viewItem :: "webcrypto \<Rightarrow> nat \<Rightarrow> env \<Rightarrow> vault \<Rightarrow> jsstring option \<times> vault" where
  "viewItem W k e st =
     (case getMasterKey W e st of
        (None, st1) \<Rightarrow> (None, st1)
      | (Some key, st1) \<Rightarrow>
          (case db st1 of
             None \<Rightarrow> (None, clearKeyCache st1)
           | Some d \<Rightarrow>
               (case map_of (history d) k of
                  None \<Rightarrow> (None, st1)
                | Some item \<Rightarrow>
                    (case aesDecrypt W (iv item) (encryptedData item) key of
                       Inl err \<Rightarrow> (None, clearKeyCache st1)
                     | Inr plain \<Rightarrow> (Some plain, st1)))))"

section \<open>The beta module\<close>

text \<open>\<open>src/beta/history.js\<close> derives its keys with its own constants.\<close>

definition PBKDF2_ITERATIONS :: nat where "PBKDF2_ITERATIONS = 100000"

definition deriveKeyFromPassphrase :: "jsstring \<Rightarrow> bytes \<Rightarrow> (cryptokey \<times> bytes) option" where
  "deriveKeyFromPassphrase passphrase s =
     (let keyMaterial = subtle_importKey (TextEncoder_encode passphrase) False [DeriveBits, DeriveKey];
          key = subtle_deriveKey
                  \<lparr>kdf_salt = s, kdf_iterations = PBKDF2_ITERATIONS, kdf_hash = SHA_256\<rparr>
                  keyMaterial 256 False [Encrypt, Decrypt]
      in Some (key, s))"

section \<open>Runs\<close>

text \<open>\<open>deleteItem\<close> asks for the master key and then deletes the row.\<close>

definition deleteItem :: "webcrypto \<Rightarrow> nat \<Rightarrow> env \<Rightarrow> vault \<Rightarrow> vault" where
  "deleteItem W k e st =
     (case getMasterKey W e st of
        (None, st1) \<Rightarrow> st1
      | (Some key, st1) \<Rightarrow> st1\<lparr>db := map_option (store_delete k) (db st1)\<rparr>)"

text \<open>
  The user's actions on an open vault, one at a time (the module runs one operation to its
  end before the next starts): save a value, reveal a row, delete a row.
\<close>

datatype call = Save jsstring jsstring env | View nat env | Delete nat env

fun exec :: "webcrypto \<Rightarrow> call \<Rightarrow> vault \<Rightarrow> vault" where
  "exec W (Save v ty e) st = addToHistory W v ty e st"
| "exec W (View k e) st = snd (viewItem W k e st)"
| "exec W (Delete k e) st = deleteItem W k e st"

definition run :: "webcrypto \<Rightarrow> call list \<Rightarrow> vault \<Rightarrow> vault" where
  "run W cs st = fold (exec W) cs st"

definition saves :: "webcrypto \<Rightarrow> (jsstring \<times> jsstring \<times> env) list \<Rightarrow> vault \<Rightarrow> vault" where
  "saves W cs st = fold (\<lambda>(v, ty, e). addToHistory W v ty e) cs st"

text \<open>The two cache variables are set together and cleared together.\<close>

definition cache_paired :: "vault \<Rightarrow> bool" where
  "cache_paired st = ((cachedKey st = None) = (keyExpiry st = None))"

text \<open>The rows of the live vault: consecutive keys, the last one just below the generator.\<close>

definition recent_rows :: "database \<Rightarrow> bool" where
  "recent_rows d =
     (length (history d) < keygen d \<and>
      map fst (history d) = [keygen d - length (history d) ..< keygen d])"

subsection \<open>A stand-in cipher\<close>

text \<open>
  To run the model on concrete inputs the cipher parameter needs a value. The stand-in
  puts a tag made of the key's inputs and the nonce in front of the plaintext, and
  decryption accepts a ciphertext only under the same key and nonce.
\<close>

definition stub_tag :: "cryptokey \<Rightarrow> bytes \<Rightarrow> bytes" where
  "stub_tag key nonce = material (base key) @ kdf_salt (derivation key) @ nonce"

definition stub_gcm :: webcrypto where
  "stub_gcm =
     \<lparr>gcm_encrypt = (\<lambda>key nonce m. stub_tag key nonce @ m),
      gcm_decrypt = (\<lambda>key nonce c.
         if take (length (stub_tag key nonce)) c = stub_tag key nonce
         then Some (drop (length (stub_tag key nonce)) c) else None)\<rparr>"

definition demo_rng :: "nat \<Rightarrow> byte" where
  "demo_rng i = of_nat i"

definition demo_env :: "jsstring option \<Rightarrow> bool \<Rightarrow> env" where
  "demo_env p r = \<lparr>modal = Some (p, r), t_lookup = 1000, t_store = 2000, t_stamp = 3000\<rparr>"

definition demo_record :: master_record where
  "demo_record =
     \<lparr>iv = [7],
      encryptedData = gcm_encrypt stub_gcm (deriveKey (lit ''pw'') [9]) [7]
                        (TextEncoder_encode VERIFY_PLAIN),
      salt = [9]\<rparr>"

definition demo_db :: database where
  "demo_db = \<lparr>meta = [1 \<mapsto> demo_record], history = [], keygen = 1\<rparr>"

definition demo_vault :: vault where
  "demo_vault = \<lparr>db = Some demo_db, cachedKey = None, keyExpiry = None, rng = demo_rng\<rparr>"

text \<open>A vault with a live cached key and one row that no key opens.\<close>

definition demo_key :: cryptokey where
  "demo_key = deriveKey (lit ''pw'') [9]"

definition demo_entry :: entry where
  "demo_entry = \<lparr>iv = [1], encryptedData = [], entry_type = lit ''password'', timestamp = 0\<rparr>"

definition demo_rows :: database where
  "demo_rows = \<lparr>meta = [1 \<mapsto> demo_record], history = [(1, demo_entry)], keygen = 2\<rparr>"

definition demo_unlocked :: vault where
  "demo_unlocked =
     \<lparr>db = Some demo_rows, cachedKey = Some demo_key, keyExpiry = Some 5000, rng = demo_rng\<rparr>"

text \<open>The vault is initialised with master record \<open>m\<close>.\<close>

definition has_master :: "master_record \<Rightarrow> vault \<Rightarrow> bool" where
  "has_master m st = (case db st of None \<Rightarrow> False | Some d \<Rightarrow> meta d 1 = Some m)"

text \<open>A key made by \<open>deriveKey\<close>, and a cache that holds no other kind of key.\<close>

definition vault_key :: "cryptokey \<Rightarrow> bool" where
  "vault_key key =
     (kdf_iterations (derivation key) = PBKDF2_ITERS \<and> kdf_hash (derivation key) = SHA_512
      \<and> aes_length key = 256 \<and> \<not> extractable key)"

definition cache_derived :: "vault \<Rightarrow> bool" where
  "cache_derived st = (case cachedKey st of None \<Rightarrow> True | Some k \<Rightarrow> vault_key k)"

text \<open>
  The rows are the most recent ones and their number is what 100 allows: all of the
  \<open>keygen - 1\<close> rows ever added while these are at most 100, and 100 of them after that.
\<close>

definition rows_inv :: "database \<Rightarrow> bool" where
  "rows_inv d = (recent_rows d \<and> length (history d) = min MAX_HISTORY (keygen d - 1))"


text \<open>
  The passphrase \<open>p\<close> opens the vault: there is no master record yet, or the cipher
  accepts the stored verification ciphertext under the key derived from \<open>p\<close>. A save
  request to which the dialogue answers \<open>p\<close>.
\<close>

definition opens_with :: "webcrypto \<Rightarrow> jsstring \<Rightarrow> vault \<Rightarrow> bool" where
  "opens_with W p st =
     (case db st of
        None \<Rightarrow> False
      | Some d \<Rightarrow>
          (case meta d 1 of
             None \<Rightarrow> True
           | Some m \<Rightarrow> gcm_decrypt W (deriveKey p (salt m)) (iv m) (encryptedData m)
                        = Some (TextEncoder_encode VERIFY_PLAIN)))"

definition answers :: "jsstring \<Rightarrow> jsstring \<times> jsstring \<times> env \<Rightarrow> bool" where
  "answers p c =
     (case c of (v, ty, e) \<Rightarrow>
        v \<noteq> [] \<and> (modal e = Some (Some p, False) \<or> modal e = Some (Some p, True)))"

section \<open>Text encoding and decoding\<close>

text \<open>
  Decoding what the encoder wrote gives the scalar values back, and a well-formed string
  that does not start with U+FEFF comes back as it was.
\<close>

lemma unat_byte: "n < 256 \<Longrightarrow> unat (of_nat n :: 8 word) = n"
  by (simp add: unat_of_nat)

lemma add_mod_small: "x < k \<Longrightarrow> (q * k + x) mod k = (x::nat)"
  by simp

lemma cont_mod: "x < 0x40 \<Longrightarrow> (0x80 + x) mod 0x40 = (x::nat)"
  using add_mod_small[of x "0x40" 2] by simp

lemma lead2_mod: "a < 0x20 \<Longrightarrow> (0xC0 + a) mod 0x20 = (a::nat)"
  using add_mod_small[of a "0x20" 6] by simp

lemma lead3_mod: "a < 0x10 \<Longrightarrow> (0xE0 + a) mod 0x10 = (a::nat)"
  using add_mod_small[of a "0x10" 14] by simp

lemma lead4_mod: "a < 0x08 \<Longrightarrow> (0xF0 + a) mod 0x08 = (a::nat)"
  using add_mod_small[of a "0x08" 30] by simp

lemma split3: "(c::nat) = (c div 0x1000 * 0x40 + c div 0x40 mod 0x40) * 0x40 + c mod 0x40"
proof -
  have "c div 0x1000 = c div 0x40 div 0x40"
    using div_mult2_eq[of c "0x40" "0x40"] by simp
  then show ?thesis by simp
qed

lemma split4:
  "(c::nat) = ((c div 0x40000 * 0x40 + c div 0x1000 mod 0x40) * 0x40 + c div 0x40 mod 0x40) * 0x40
     + c mod 0x40"
proof -
  have 1: "c div 0x1000 = c div 0x40 div 0x40"
    using div_mult2_eq[of c "0x40" "0x40"] by simp
  have 2: "c div 0x40000 = c div 0x40 div 0x40 div 0x40"
    using div_mult2_eq[of c "0x1000" "0x40"] by (simp add: 1)
  show ?thesis unfolding 1 2 by simp
qed

lemma utf8_decode_bytes:
  assumes "scalar c"
  shows "utf8_decode 0 0 0 0x80 0xBF (utf8_bytes c @ rest) = c # utf8_decode 0 0 0 0x80 0xBF rest"
proof -
  consider "c < 0x80" | "0x80 \<le> c" "c < 0x800" | "0x800 \<le> c" "c < 0x10000" | "0x10000 \<le> c"
    by linarith
  then show ?thesis
  proof cases
    case 1
    then show ?thesis by (simp add: utf8_bytes_def utf8_lead_def unat_byte)
  next
    case 2
    define a where "a = c div 0x40"
    define b where "b = c mod 0x40"
    define b1 :: byte where "b1 = of_nat (0xC0 + a)"
    define b2 :: byte where "b2 = of_nat (0x80 + b)"
    have c: "c = a * 0x40 + b" and b: "b < 0x40" by (simp_all add: a_def b_def)
    have a: "2 \<le> a" "a < 0x20" using 2 by (simp_all add: a_def less_mult_imp_div_less le_div_geq)
    have enc: "utf8_bytes c = [b1, b2]"
      using 2 by (simp add: utf8_bytes_def a_def b_def b1_def b2_def)
    have u1: "unat b1 = 0xC0 + a" unfolding b1_def by (rule unat_byte) (use a in simp)
    have u2: "unat b2 = 0x80 + b" unfolding b2_def by (rule unat_byte) (use b in simp)
    have l: "utf8_lead (0xC0 + a) = Lead a 1 0x80 0xBF"
      using a by (simp add: utf8_lead_def lead2_mod)
    show ?thesis unfolding enc using a b by (simp add: u1 u2 l c cont_mod)
  next
    case 3
    define a where "a = c div 0x1000"
    define m where "m = c div 0x40 mod 0x40"
    define b where "b = c mod 0x40"
    define b1 :: byte where "b1 = of_nat (0xE0 + a)"
    define b2 :: byte where "b2 = of_nat (0x80 + m)"
    define b3 :: byte where "b3 = of_nat (0x80 + b)"
    have c: "c = (a * 0x40 + m) * 0x40 + b" unfolding a_def b_def m_def by (rule split3)
    have b: "b < 0x40" and m: "m < 0x40" by (simp_all add: b_def m_def)
    have a: "a < 0x10" using 3 by (simp add: a_def less_mult_imp_div_less)
    have lo: "a = 0 \<longrightarrow> 0x20 \<le> m" using 3 c b m by auto
    have hi: "a = 0xD \<longrightarrow> m \<le> 0x1F" using assms 3 c b m by (auto simp: scalar_def)
    have enc: "utf8_bytes c = [b1, b2, b3]"
      using 3 by (simp add: utf8_bytes_def a_def b_def m_def b1_def b2_def b3_def)
    have u1: "unat b1 = 0xE0 + a" unfolding b1_def by (rule unat_byte) (use a in simp)
    have u2: "unat b2 = 0x80 + m" unfolding b2_def by (rule unat_byte) (use m in simp)
    have u3: "unat b3 = 0x80 + b" unfolding b3_def by (rule unat_byte) (use b in simp)
    have l: "utf8_lead (0xE0 + a) =
        Lead a 2 (if a = 0 then 0xA0 else 0x80) (if a = 0xD then 0x9F else 0xBF)"
      using a by (simp add: utf8_lead_def lead3_mod)
    show ?thesis unfolding enc using a b m lo hi by (simp add: u1 u2 u3 l c cont_mod)
  next
    case 4
    define a where "a = c div 0x40000"
    define n where "n = c div 0x1000 mod 0x40"
    define m where "m = c div 0x40 mod 0x40"
    define b where "b = c mod 0x40"
    define b1 :: byte where "b1 = of_nat (0xF0 + a)"
    define b2 :: byte where "b2 = of_nat (0x80 + n)"
    define b3 :: byte where "b3 = of_nat (0x80 + m)"
    define b4 :: byte where "b4 = of_nat (0x80 + b)"
    have c: "c = ((a * 0x40 + n) * 0x40 + m) * 0x40 + b"
      unfolding a_def b_def m_def n_def by (rule split4)
    have b: "b < 0x40" and m: "m < 0x40" and n: "n < 0x40" by (simp_all add: b_def m_def n_def)
    have c4: "c < 0x110000" using assms 4 by (simp add: scalar_def)
    have a: "a < 5" using c4 by (simp add: a_def less_mult_imp_div_less)
    have lo: "a = 0 \<longrightarrow> 0x10 \<le> n" using 4 c b m n by auto
    have hi: "a = 4 \<longrightarrow> n \<le> 0xF" using c4 c b m n by auto
    have enc: "utf8_bytes c = [b1, b2, b3, b4]"
      using 4 by (simp add: utf8_bytes_def a_def b_def m_def n_def b1_def b2_def b3_def b4_def)
    have u1: "unat b1 = 0xF0 + a" unfolding b1_def by (rule unat_byte) (use a in simp)
    have u2: "unat b2 = 0x80 + n" unfolding b2_def by (rule unat_byte) (use n in simp)
    have u3: "unat b3 = 0x80 + m" unfolding b3_def by (rule unat_byte) (use m in simp)
    have u4: "unat b4 = 0x80 + b" unfolding b4_def by (rule unat_byte) (use b in simp)
    have l: "utf8_lead (0xF0 + a) =
        Lead a 3 (if a = 0 then 0x90 else 0x80) (if a = 4 then 0x8F else 0xBF)"
      using a by (simp add: utf8_lead_def lead4_mod)
    show ?thesis unfolding enc using a b m n lo hi by (simp add: u1 u2 u3 u4 l c cont_mod)
  qed
qed


lemma utf8_decode_encode:
  "list_all scalar cs \<Longrightarrow> utf8_decode 0 0 0 0x80 0xBF (concat (map utf8_bytes cs)) = cs"
  by (induction cs) (simp_all add: utf8_decode_bytes)

lemma unat_unit_bound: "unat (u :: 16 word) < 0x10000"
  using unsigned_less[of u, where ?'a = nat] by simp

lemma scalar_to_scalar_values: "list_all scalar (to_scalar_values s)"
proof (induction s rule: to_scalar_values.induct)
  case 1
  show ?case by simp
next
  case (2 u)
  show ?case using unat_unit_bound[of u]
    by (auto simp: scalar_def is_lead_surrogate_def is_trail_surrogate_def)
next
  case (3 u v rest)
  then show ?case using unat_unit_bound[of u] unat_unit_bound[of v]
    by (auto simp: scalar_def is_lead_surrogate_def is_trail_surrogate_def)
qed

lemma utf16_units_bmp:
  "\<not> is_lead_surrogate u \<Longrightarrow> \<not> is_trail_surrogate u \<Longrightarrow> utf16_units (unat u) = [u]"
  using unat_unit_bound[of u] by (simp add: utf16_units_def)

lemma utf16_units_pair:
  assumes "is_lead_surrogate u" "is_trail_surrogate v"
  shows "utf16_units (0x10000 + (unat u - 0xD800) * 0x400 + (unat v - 0xDC00)) = [u, v]"
proof -
  define h where "h = unat u - 0xD800"
  define l where "l = unat v - 0xDC00"
  have h: "h < 0x400" and l: "l < 0x400" and uh: "unat u = 0xD800 + h" and vl: "unat v = 0xDC00 + l"
    using assms by (auto simp: h_def l_def is_lead_surrogate_def is_trail_surrogate_def)
  have "(h * 0x400 + l) div 0x400 = h" "(h * 0x400 + l) mod 0x400 = l" using l by simp_all
  then have "utf16_units (0x10000 + h * 0x400 + l) = [of_nat (0xD800 + h), of_nat (0xDC00 + l)]"
    by (simp add: utf16_units_def add.assoc del: of_nat_add)
  also have "\<dots> = [of_nat (unat u), of_nat (unat v)]" by (simp only: uh vl)
  finally show ?thesis by (simp add: h_def l_def)
qed

lemma from_to_scalar_values:
  "isWellFormed s \<Longrightarrow> concat (map utf16_units (to_scalar_values s)) = s"
  by (induction s rule: to_scalar_values.induct)
     (auto simp: utf16_units_bmp utf16_units_pair split: if_splits)

lemma unat_bom: "u \<noteq> 0xFEFF \<Longrightarrow> unat (u :: 16 word) \<noteq> 0xFEFF"
proof
  assume ne: "u \<noteq> 0xFEFF" and eq: "unat u = 0xFEFF"
  have "u = of_nat (unat u)" by simp
  also have "\<dots> = 0xFEFF" by (simp only: eq of_nat_numeral)
  finally show False using ne by simp
qed

lemma strip_bom_to_scalar_values:
  "\<not> startsWithBOM s \<Longrightarrow> strip_bom (to_scalar_values s) = to_scalar_values s"
proof (cases s rule: to_scalar_values.cases)
  case 1
  then show ?thesis by (simp add: strip_bom_def)
next
  case (2 u)
  assume "\<not> startsWithBOM s"
  with 2 have "unat u \<noteq> 0xFEFF" by (simp add: startsWithBOM_def unat_bom)
  with 2 show ?thesis by (simp add: strip_bom_def)
next
  case (3 u v rest)
  assume "\<not> startsWithBOM s"
  with 3 have "unat u \<noteq> 0xFEFF" by (simp add: startsWithBOM_def unat_bom)
  with 3 show ?thesis by (simp add: strip_bom_def is_lead_surrogate_def is_trail_surrogate_def)
qed

lemma text_roundtrip:
  "isWellFormed s \<Longrightarrow> \<not> startsWithBOM s \<Longrightarrow> TextDecoder_decode (TextEncoder_encode s) = s"
  by (simp add: TextDecoder_decode_def TextEncoder_encode_def utf8_decode_encode
      scalar_to_scalar_values strip_bom_to_scalar_values from_to_scalar_values)

lemma marker_roundtrip: "TextDecoder_decode (TextEncoder_encode VERIFY_PLAIN) = VERIFY_PLAIN"
  by (rule text_roundtrip)
     (simp_all add: VERIFY_PLAIN_def lit_def startsWithBOM_def is_lead_surrogate_def
        is_trail_surrogate_def)

section \<open>Deriving and verifying the master key\<close>

lemma map_shift: "map (\<lambda>i. f (n + i)) [0..<k] = map f [n..<n + k]"
proof -
  have "[n..<n + k] = map (\<lambda>i. i + n) [0..<k]" by (simp add: map_add_upt add.commute)
  then show ?thesis by (simp add: comp_def add.commute)
qed

lemma meta_fold_delete: "meta (fold (\<lambda>item. store_delete (fst item)) xs d) = meta d"
  by (induction xs arbitrary: d) (simp_all add: store_delete_def)

lemma meta_enforceLimit: "meta (enforceLimit d) = meta d"
  by (simp add: enforceLimit_def Let_def meta_fold_delete)

lemma meta_store_add: "meta (store_add x d) = meta d"
  by (simp add: store_add_def)

lemma deriveAndVerify_present:
  "db st = Some d \<Longrightarrow> meta d 1 = Some m \<Longrightarrow> snd (deriveAndVerify W p st) = st"
  by (simp add: deriveAndVerify_def getMasterRecord_def Let_def split: sum.splits)

lemma deriveAndVerify_first:
  assumes "db st = Some d" and "meta d 1 = None"
  shows "deriveAndVerify W p st =
     (Inr (deriveKey p (map (rng st) [0..<32])),
      st\<lparr>db := Some (d\<lparr>meta := (meta d)(1 \<mapsto>
              \<lparr>iv = map (rng st) [32..<44],
               encryptedData = gcm_encrypt W (deriveKey p (map (rng st) [0..<32]))
                  (map (rng st) [32..<44]) (TextEncoder_encode VERIFY_PLAIN),
               salt = map (rng st) [0..<32]\<rparr>)\<rparr>),
         rng := (\<lambda>i. rng st (44 + i))\<rparr>)"
proof -
  have n: "map (\<lambda>i. rng st (32 + i)) [0..<12] = map (rng st) [32..<44]"
    using map_shift[of "rng st" 32 12] by simp
  show ?thesis using assms
    by (simp add: deriveAndVerify_def getMasterRecord_def getRandomValues_def aesEncrypt_def
        putMasterRecord_def Let_def n)
qed

lemma deriveAndVerify_opens:
  assumes "db st = Some d" and "meta d 1 = Some m"
    and "gcm_decrypt W (deriveKey p (salt m)) (iv m) (encryptedData m)
         = Some (TextEncoder_encode VERIFY_PLAIN)"
  shows "deriveAndVerify W p st = (Inr (deriveKey p (salt m)), st)"
  using assms
  by (simp add: deriveAndVerify_def getMasterRecord_def aesDecrypt_def marker_roundtrip)

lemma getMasterKey_has_master:
  assumes "has_master m st"
  shows "has_master m (snd (getMasterKey W e st))"
proof -
  from assms obtain d where d: "db st = Some d" "meta d 1 = Some m"
    by (auto simp: has_master_def split: option.splits)
  have same: "st' = st" if "deriveAndVerify W p st = (r, st')" for p r st'
    using deriveAndVerify_present[OF d, of W p] that by simp
  show ?thesis using assms
    by (auto simp: getMasterKey_def has_master_def setCachedKey_def
        split: option.splits sum.splits prod.splits if_splits dest!: same)
qed

lemma addToHistory_has_master:
  assumes "has_master m st"
  shows "has_master m (addToHistory W v ty e st)"
proof -
  have "has_master m (snd (getMasterKey W e st))"
    using assms by (rule getMasterKey_has_master)
  then show ?thesis using assms
    by (auto simp: addToHistory_def has_master_def Let_def meta_store_add meta_enforceLimit
        split: option.splits prod.splits)
qed

lemma viewItem_has_master:
  assumes "has_master m st"
  shows "has_master m (snd (viewItem W k e st))"
proof -
  have "has_master m (snd (getMasterKey W e st))"
    using assms by (rule getMasterKey_has_master)
  then show ?thesis
    by (auto simp: viewItem_def has_master_def clearKeyCache_def
        split: option.splits prod.splits sum.splits)
qed

lemma deleteItem_has_master:
  assumes "has_master m st"
  shows "has_master m (deleteItem W k e st)"
proof -
  have "has_master m (snd (getMasterKey W e st))"
    using assms by (rule getMasterKey_has_master)
  then show ?thesis
    by (auto simp: deleteItem_def has_master_def store_delete_def
        split: option.splits prod.splits)
qed

lemma exec_has_master: "has_master m st \<Longrightarrow> has_master m (exec W c st)"
  by (cases c) (simp_all add: addToHistory_has_master viewItem_has_master deleteItem_has_master)

lemma run_has_master: "has_master m st \<Longrightarrow> has_master m (run W cs st)"
  unfolding run_def by (induction cs arbitrary: st) (simp_all add: exec_has_master)

text \<open>
  C10. When a master record exists, \<open>deriveAndVerify\<close> leaves the whole state as it was:
  the master record, every history row, and also the key cache and the random generator.
  This holds whether the call returns a key or fails, since the statement is about the
  state that comes back with either result.
\<close>

theorem deriveAndVerify_existing_frame:
  "db st = Some d \<Longrightarrow> meta d 1 = Some m \<Longrightarrow> snd (deriveAndVerify W p st) = st"
  by (rule deriveAndVerify_present)

theorem deriveAndVerify_existing_frame_witness:
  "db demo_vault = Some demo_db \<and> meta demo_db 1 = Some demo_record
   \<and> snd (deriveAndVerify stub_gcm (lit ''wrong'') demo_vault) = demo_vault"
proof -
  have h1: "db demo_vault = Some demo_db" by (simp add: demo_vault_def)
  have h2: "meta demo_db 1 = Some demo_record" by (simp add: demo_db_def)
  show ?thesis using deriveAndVerify_existing_frame[OF h1 h2] h1 h2 by simp
qed

text \<open>
  C1. When a master record \<open>m\<close> exists, \<open>deriveAndVerify\<close> returns the key derived from
  the passphrase and the stored salt exactly when the cipher accepts the stored
  verification ciphertext under that key and the decoded plaintext is the marker
  \<open>VERIFY_PLAIN\<close>. In every other case, whether the cipher rejects or the plaintext
  differs, the caller gets the same thing: the error \<open>incorrect-password\<close> and an
  unchanged state.
\<close>

theorem deriveAndVerify_verdict:
  assumes "db st = Some d" and "meta d 1 = Some m"
  shows "deriveAndVerify W p st =
     (if \<exists>buf. gcm_decrypt W (deriveKey p (salt m)) (iv m) (encryptedData m) = Some buf
               \<and> TextDecoder_decode buf = VERIFY_PLAIN
      then Inr (deriveKey p (salt m))
      else Inl (Error ''incorrect-password''), st)"
  using assms
  by (auto simp add: deriveAndVerify_def getMasterRecord_def aesDecrypt_def Let_def
      split: sum.splits option.splits)

theorem deriveAndVerify_verdict_witness:
  "db demo_vault = Some demo_db \<and> meta demo_db 1 = Some demo_record
   \<and> deriveAndVerify stub_gcm (lit ''pw'') demo_vault
       = (Inr (deriveKey (lit ''pw'') [9]), demo_vault)
   \<and> deriveAndVerify stub_gcm (lit ''px'') demo_vault
       = (Inl (Error ''incorrect-password''), demo_vault)"
proof -
  have h1: "db demo_vault = Some demo_db" by (simp add: demo_vault_def)
  have h2: "meta demo_db 1 = Some demo_record" by (simp add: demo_db_def)
  have s: "salt demo_record = [9]" by (simp add: demo_record_def)
  have marker: "TextDecoder_decode (TextEncoder_encode VERIFY_PLAIN) = VERIFY_PLAIN"
    by (rule text_roundtrip)
       (simp_all add: VERIFY_PLAIN_def lit_def startsWithBOM_def is_lead_surrogate_def
          is_trail_surrogate_def)
  have ok: "\<exists>buf. gcm_decrypt stub_gcm (deriveKey (lit ''pw'') (salt demo_record))
              (iv demo_record) (encryptedData demo_record) = Some buf
            \<and> TextDecoder_decode buf = VERIFY_PLAIN"
    by (simp add: demo_record_def stub_gcm_def marker)
  have bad: "\<not> (\<exists>buf. gcm_decrypt stub_gcm (deriveKey (lit ''px'') (salt demo_record))
              (iv demo_record) (encryptedData demo_record) = Some buf
            \<and> TextDecoder_decode buf = VERIFY_PLAIN)"
    by (simp add: demo_record_def stub_gcm_def stub_tag_def deriveKey_def subtle_deriveKey_def
        subtle_importKey_def TextEncoder_encode_def lit_def utf8_bytes_def
        is_lead_surrogate_def is_trail_surrogate_def)
  have r1: "deriveAndVerify stub_gcm (lit ''pw'') demo_vault
            = (Inr (deriveKey (lit ''pw'') [9]), demo_vault)"
    using deriveAndVerify_verdict[OF h1 h2, of stub_gcm "lit ''pw''"] ok by (simp only: if_True s)
  have r2: "deriveAndVerify stub_gcm (lit ''px'') demo_vault
            = (Inl (Error ''incorrect-password''), demo_vault)"
    using deriveAndVerify_verdict[OF h1 h2, of stub_gcm "lit ''px''"] bad by (simp only: if_False)
  show ?thesis using h1 h2 r1 r2 by blast
qed

text \<open>
  C3. When no master record exists, \<open>deriveAndVerify\<close> takes 32 random bytes as the salt,
  derives the key from the passphrase and that salt, takes the next 12 random bytes as the
  nonce, encrypts the marker \<open>VERIFY_PLAIN\<close> under key and nonce, stores salt, nonce and
  ciphertext under key 1 of the \<open>meta\<close> store, and returns the key; nothing else of the
  state changes but the random generator, which has moved on by 44 bytes. The key is the
  one PBKDF2 derives from the encoded passphrase as key material and these 32 bytes as
  salt, with 250,000 iterations of SHA-512, for AES-GCM with 256 bits, not extractable,
  usable to encrypt and to decrypt. From then on
  the record is there: every later \<open>deriveAndVerify\<close> leaves the state as it is, and after
  any sequence of saves, reveals and deletions the \<open>meta\<close> store still holds this record,
  so the vault is never initialised a second time.
\<close>

theorem deriveAndVerify_first_use:
  assumes "db st = Some d" and "meta d 1 = None"
  shows "let s = map (rng st) [0..<32];
             nonce = map (rng st) [32..<44];
             key = deriveKey p s;
             m = \<lparr>iv = nonce,
                  encryptedData = gcm_encrypt W key nonce (TextEncoder_encode VERIFY_PLAIN),
                  salt = s\<rparr>;
             st' = st\<lparr>db := Some (d\<lparr>meta := (meta d)(1 \<mapsto> m)\<rparr>), rng := (\<lambda>i. rng st (44 + i))\<rparr>
         in length s = 32 \<and> length nonce = 12
            \<and> deriveAndVerify W p st = (Inr key, st')
            \<and> (\<forall>q. snd (deriveAndVerify W q st') = st')
            \<and> (\<forall>cs. has_master m (run W cs st'))
            \<and> kdf_salt (derivation key) = s
            \<and> material (base key) = TextEncoder_encode p
            \<and> kdf_iterations (derivation key) = 250000
            \<and> kdf_hash (derivation key) = SHA_512
            \<and> aes_length key = 256 \<and> \<not> extractable key
            \<and> usages key = [Encrypt, Decrypt]
            \<and> \<not> base_extractable (base key) \<and> base_usages (base key) = [DeriveKey]"
proof -
  define s where "s = map (rng st) [0..<32]"
  define nonce where "nonce = map (rng st) [32..<44]"
  define key where "key = deriveKey p s"
  define m where "m = \<lparr>iv = nonce,
      encryptedData = gcm_encrypt W key nonce (TextEncoder_encode VERIFY_PLAIN), salt = s\<rparr>"
  define st' where
    "st' = st\<lparr>db := Some (d\<lparr>meta := (meta d)(1 \<mapsto> m)\<rparr>), rng := (\<lambda>i. rng st (44 + i))\<rparr>"
  have n: "map (\<lambda>i. rng st (32 + i)) [0..<12] = nonce"
    unfolding nonce_def using map_shift[of "rng st" 32 12] by simp
  have call: "deriveAndVerify W p st = (Inr key, st')"
    using assms
    by (simp add: deriveAndVerify_def getMasterRecord_def getRandomValues_def aesEncrypt_def
        putMasterRecord_def Let_def n s_def[symmetric] key_def[symmetric] m_def st'_def)
  have present: "db st' = Some (d\<lparr>meta := (meta d)(1 \<mapsto> m)\<rparr>)"
    "meta (d\<lparr>meta := (meta d)(1 \<mapsto> m)\<rparr>) 1 = Some m"
    by (simp_all add: st'_def)
  have later: "snd (deriveAndVerify W q st') = st'" for q
    using present by (rule deriveAndVerify_present)
  have "has_master m st'" using present by (simp add: has_master_def)
  then have kept: "has_master m (run W cs st')" for cs by (rule run_has_master)
  have derived: "kdf_salt (derivation key) = s" "material (base key) = TextEncoder_encode p"
    "kdf_iterations (derivation key) = 250000" "kdf_hash (derivation key) = SHA_512"
    "aes_length key = 256" "\<not> extractable key" "usages key = [Encrypt, Decrypt]"
    "\<not> base_extractable (base key)" "base_usages (base key) = [DeriveKey]"
    by (simp_all add: key_def deriveKey_def subtle_deriveKey_def subtle_importKey_def
        PBKDF2_ITERS_def Let_def)
  have "length s = 32" "length nonce = 12" by (simp_all add: s_def nonce_def)
  with call later kept derived show ?thesis
    unfolding Let_def s_def[symmetric] nonce_def[symmetric] key_def[symmetric]
      m_def[symmetric] st'_def[symmetric] by blast
qed

theorem deriveAndVerify_first_use_witness:
  "db (fresh_vault demo_rng) = Some empty_db \<and> meta empty_db 1 = None
   \<and> fst (deriveAndVerify stub_gcm (lit ''hunter2'') (fresh_vault demo_rng))
       = Inr (deriveKey (lit ''hunter2'') (map demo_rng [0..<32]))
   \<and> kdf_salt (derivation (deriveKey (lit ''hunter2'') (map demo_rng [0..<32])))
       = map demo_rng [0..<32]
   \<and> material (base (deriveKey (lit ''hunter2'') (map demo_rng [0..<32])))
       = TextEncoder_encode (lit ''hunter2'')
   \<and> kdf_iterations (derivation (deriveKey (lit ''hunter2'') (map demo_rng [0..<32]))) = 250000
   \<and> kdf_hash (derivation (deriveKey (lit ''hunter2'') (map demo_rng [0..<32]))) = SHA_512"
proof -
  let ?k = "deriveKey (lit ''hunter2'') (map (rng (fresh_vault demo_rng)) [0..<32])"
  have h1: "db (fresh_vault demo_rng) = Some empty_db" by (simp add: fresh_vault_def)
  have h2: "meta empty_db 1 = None" by (simp add: empty_db_def)
  have r: "rng (fresh_vault demo_rng) = demo_rng" by (simp add: fresh_vault_def)
  note t = deriveAndVerify_first_use[OF h1 h2, where W = stub_gcm and p = "lit ''hunter2''",
      unfolded Let_def]
  from t have "deriveAndVerify stub_gcm (lit ''hunter2'') (fresh_vault demo_rng)
        = (Inr ?k, snd (deriveAndVerify stub_gcm (lit ''hunter2'') (fresh_vault demo_rng)))"
    by (metis snd_conv)
  then have a: "fst (deriveAndVerify stub_gcm (lit ''hunter2'') (fresh_vault demo_rng)) = Inr ?k"
    by (metis fst_conv)
  from t have b: "kdf_salt (derivation ?k) = map (rng (fresh_vault demo_rng)) [0..<32]"
    "material (base ?k) = TextEncoder_encode (lit ''hunter2'')"
    "kdf_iterations (derivation ?k) = 250000" "kdf_hash (derivation ?k) = SHA_512"
    by blast+
  show ?thesis using h1 h2 a b by (simp only: r simp_thms)
qed

text \<open>
  A vault initialised with a passphrase opens again with the same passphrase, provided
  the cipher decrypts under the derived key what it encrypted under it.
\<close>

lemma original_passphrase_verifies:
  assumes "db st = Some d" and "meta d 1 = None"
    and "deriveAndVerify W p st = (Inr key, st')"
    and "\<forall>nonce m. gcm_decrypt W key nonce (gcm_encrypt W key nonce m) = Some m"
  shows "deriveAndVerify W p st' = (Inr key, st')"
proof -
  note m = marker_roundtrip
  from assms(1-3) have k: "key = deriveKey p (map (rng st) [0..<32])"
    and st': "st' = putMasterRecord
        \<lparr>iv = iv (fst (aesEncrypt W VERIFY_PLAIN key (\<lambda>i. rng st (32 + i)))),
         encryptedData = encryptedData (fst (aesEncrypt W VERIFY_PLAIN key (\<lambda>i. rng st (32 + i)))),
         salt = map (rng st) [0..<32]\<rparr>
        (st\<lparr>rng := snd (aesEncrypt W VERIFY_PLAIN key (\<lambda>i. rng st (32 + i)))\<rparr>)"
    by (auto simp: deriveAndVerify_def getMasterRecord_def getRandomValues_def Let_def split_def)
  show ?thesis
    using assms(1,4)
    by (simp add: st' deriveAndVerify_def getMasterRecord_def putMasterRecord_def aesDecrypt_def
        aesEncrypt_def getRandomValues_def Let_def k[symmetric] m)
qed

section \<open>The session key cache\<close>

lemma cache_paired_fresh: "cache_paired (fresh_vault r)"
  by (simp add: cache_paired_def fresh_vault_def)

lemma cache_paired_set: "cache_paired (setCachedKey k now st)"
  by (simp add: cache_paired_def setCachedKey_def)

lemma cache_paired_clear: "cache_paired (clearKeyCache st)"
  by (simp add: cache_paired_def clearKeyCache_def)

lemma deriveAndVerify_cache:
  assumes "deriveAndVerify W p st = (res, st')"
  shows "cachedKey st' = cachedKey st \<and> keyExpiry st' = keyExpiry st"
  using assms
  by (auto simp: deriveAndVerify_def getMasterRecord_def Let_def putMasterRecord_def
      split_def split: sum.splits option.splits if_splits)

lemma getMasterKey_cache_paired:
  assumes "cache_paired st"
  shows "cache_paired (snd (getMasterKey W e st))"
proof -
  have dv: "cache_paired st'" "cache_paired (setCachedKey k t st')"
    if "deriveAndVerify W p st = (res, st')" for p res st' k t
    using deriveAndVerify_cache[OF that] assms
    by (simp_all add: cache_paired_def setCachedKey_def)
  show ?thesis using assms
    by (auto simp: getMasterKey_def split: option.splits prod.splits sum.splits dest: dv)
qed

lemma exec_cache_paired:
  assumes "cache_paired st"
  shows "cache_paired (exec W c st)"
proof -
  have g: "cache_paired (snd (getMasterKey W e st))" for e
    using assms by (rule getMasterKey_cache_paired)
  show ?thesis
  proof (cases c)
    case (Save v ty e)
    with g[of e] assms show ?thesis
      by (auto simp: addToHistory_def cache_paired_def Let_def split_def
          split: option.splits prod.splits)
  next
    case (View k e)
    with g[of e] show ?thesis
      by (auto simp: viewItem_def cache_paired_def clearKeyCache_def
          split: option.splits prod.splits sum.splits)
  next
    case (Delete k e)
    with g[of e] show ?thesis
      by (auto simp: deleteItem_def cache_paired_def split: option.splits prod.splits)
  qed
qed

lemma run_cache_paired: "cache_paired st \<Longrightarrow> cache_paired (run W cs st)"
  unfolding run_def by (induction cs arbitrary: st) (simp_all add: exec_cache_paired)

text \<open>
  C7. In a state where the two cache variables are paired (as in every state the module
  reaches), \<open>getCachedKey\<close> returns a key exactly when that key is cached and the time
  is before the stored expiry; otherwise it returns \<open>null\<close>, as it does on a vault that
  never cached anything and on one whose cache was cleared. \<open>setCachedKey\<close> replaces
  whatever was cached and sets the expiry to the current time plus 30 minutes
  (1,800,000 ms). \<open>clearKeyCache\<close> empties both variables, whatever they held. The
  last conjunct says that the variables are paired after any sequence of saves, reveals
  and deletions on a new vault.
\<close>

theorem key_cache_contract:
  assumes "cache_paired st"
  shows "(getCachedKey now st = Some k
            \<longleftrightarrow> cachedKey st = Some k \<and> (\<exists>t. keyExpiry st = Some t \<and> now < t))
       \<and> (getCachedKey now st = None
            \<longleftrightarrow> cachedKey st = None \<or> (\<exists>t. keyExpiry st = Some t \<and> t \<le> now))
       \<and> getCachedKey now (fresh_vault r) = None
       \<and> setCachedKey k' t0 st = st\<lparr>cachedKey := Some k', keyExpiry := Some (t0 + 1800000)\<rparr>
       \<and> getCachedKey now (setCachedKey k' t0 st) = (if now < t0 + 1800000 then Some k' else None)
       \<and> clearKeyCache st = st\<lparr>cachedKey := None, keyExpiry := None\<rparr>
       \<and> getCachedKey now (clearKeyCache st) = None
       \<and> cache_paired (run W cs (fresh_vault r))"
proof -
  have "cache_paired (run W cs (fresh_vault r))"
    by (rule run_cache_paired) (rule cache_paired_fresh)
  with assms show ?thesis
    by (auto simp: getCachedKey_def setCachedKey_def clearKeyCache_def cache_paired_def
        fresh_vault_def SESSION_MINS_def split: option.splits)
qed

theorem key_cache_contract_witness:
  "cache_paired demo_unlocked \<and> getCachedKey 4999 demo_unlocked = Some demo_key
   \<and> getCachedKey 5000 demo_unlocked = None"
proof -
  have h: "cache_paired demo_unlocked" by (simp add: cache_paired_def demo_unlocked_def)
  have c: "cachedKey demo_unlocked = Some demo_key" "keyExpiry demo_unlocked = Some 5000"
    by (simp_all add: demo_unlocked_def)
  have "getCachedKey 4999 demo_unlocked = Some demo_key"
    using key_cache_contract[OF h, of 4999 demo_key] c by simp
  moreover have "getCachedKey 5000 demo_unlocked = None"
    using key_cache_contract[OF h, of 5000] c by simp
  ultimately show ?thesis using h by simp
qed

section \<open>Cancelling, and failing to decrypt\<close>

text \<open>
  C8. A save whose passphrase dialogue is cancelled changes nothing. The dialogue is
  shown when \<open>getCachedKey\<close> finds no live key; cancelling it calls back with \<open>null\<close>
  (an empty passphrase is treated the same way). Then \<open>addToHistory\<close> returns the state it
  was given: the \<open>history\<close> store, the \<open>meta\<close> store and the key cache are as before.
\<close>

theorem cancelled_save_no_effect:
  assumes "getCachedKey (t_lookup e) st = None"
    and "modal e = Some (p, r)"
    and "p = None \<or> p = Some []"
  shows "addToHistory W v ty e st = st"
  using assms by (auto simp: addToHistory_def getMasterKey_def)

theorem cancelled_save_no_effect_witness:
  "getCachedKey (t_lookup (demo_env None False)) demo_vault = None
   \<and> modal (demo_env None False) = Some (None, False)
   \<and> addToHistory stub_gcm (lit ''Tr0ub4dor'') (lit ''password'') (demo_env None False) demo_vault
       = demo_vault"
proof -
  have h1: "getCachedKey (t_lookup (demo_env None False)) demo_vault = None"
    by (simp add: getCachedKey_def demo_vault_def)
  have h2: "modal (demo_env None False) = Some (None, False)" by (simp add: demo_env_def)
  have h3: "(None :: jsstring option) = None \<or> None = Some []" by simp
  show ?thesis using cancelled_save_no_effect[OF h1 h2 h3] h1 h2 by simp
qed

text \<open>
  C9. When \<open>viewItem\<close> has a key and finds the row, and the cipher rejects the row's
  ciphertext under that key, the key cache is cleared: both cache variables are \<open>null\<close>
  afterwards, so \<open>getCachedKey\<close> finds nothing at any later time and the next operation
  has to ask for the passphrase and derive the key again.
\<close>

theorem viewItem_decrypt_failure_clears_cache:
  assumes "getMasterKey W e st = (Some key, st1)"
    and "db st1 = Some d"
    and "map_of (history d) k = Some item"
    and "gcm_decrypt W key (iv item) (encryptedData item) = None"
  shows "viewItem W k e st = (None, clearKeyCache st1)
       \<and> cachedKey (snd (viewItem W k e st)) = None
       \<and> keyExpiry (snd (viewItem W k e st)) = None
       \<and> (\<forall>now. getCachedKey now (snd (viewItem W k e st)) = None)"
  using assms by (simp add: viewItem_def aesDecrypt_def clearKeyCache_def getCachedKey_def)

theorem viewItem_decrypt_failure_clears_cache_witness:
  "getMasterKey stub_gcm (demo_env None False) demo_unlocked = (Some demo_key, demo_unlocked)
   \<and> db demo_unlocked = Some demo_rows
   \<and> map_of (history demo_rows) 1 = Some demo_entry
   \<and> gcm_decrypt stub_gcm demo_key (iv demo_entry) (encryptedData demo_entry) = None
   \<and> viewItem stub_gcm 1 (demo_env None False) demo_unlocked
       = (None, clearKeyCache demo_unlocked)"
proof -
  have h1: "getMasterKey stub_gcm (demo_env None False) demo_unlocked
            = (Some demo_key, demo_unlocked)"
    by (simp add: getMasterKey_def getCachedKey_def demo_env_def demo_unlocked_def)
  have h2: "db demo_unlocked = Some demo_rows" by (simp add: demo_unlocked_def)
  have h3: "map_of (history demo_rows) 1 = Some demo_entry" by (simp add: demo_rows_def)
  have h4: "gcm_decrypt stub_gcm demo_key (iv demo_entry) (encryptedData demo_entry) = None"
    by (simp add: stub_gcm_def stub_tag_def demo_entry_def)
  show ?thesis
    using viewItem_decrypt_failure_clears_cache[OF h1 h2 h3 h4] h1 h2 h3 h4 by simp
qed

section \<open>Nonces\<close>

text \<open>
  C6. Every \<open>aesEncrypt\<close> takes the next 12 bytes of the random generator as its nonce,
  encrypts under exactly that nonce and returns it with the ciphertext. The nonce depends
  on nothing but the generator (no stored value and no earlier nonce enters it), and the
  generator has moved on by 12 bytes, so the next call takes the 12 bytes that follow.
\<close>

theorem aesEncrypt_fresh_nonce:
  "aesEncrypt W plaintext key r
     = (\<lparr>iv = map r [0..<12],
         encryptedData = gcm_encrypt W key (map r [0..<12]) (TextEncoder_encode plaintext)\<rparr>,
        \<lambda>i. r (12 + i))
   \<and> length (iv (fst (aesEncrypt W plaintext key r))) = 12
   \<and> iv (fst (aesEncrypt W plaintext' key' (snd (aesEncrypt W plaintext key r))))
       = map r [12..<24]"
  using map_shift[of r 12 12]
  by (simp add: aesEncrypt_def getRandomValues_def)

section \<open>Key derivation parameters\<close>

lemma deriveKey_vault_key: "vault_key (deriveKey p s)"
  by (simp add: vault_key_def deriveKey_def subtle_deriveKey_def Let_def)

lemma deriveAndVerify_returns_deriveKey:
  assumes "deriveAndVerify W p st = (Inr key, st')"
  shows "\<exists>s. key = deriveKey p s" and "cachedKey st' = cachedKey st"
    and "keyExpiry st' = keyExpiry st"
  using assms
  by (auto simp: deriveAndVerify_def getMasterRecord_def Let_def putMasterRecord_def
      split_def split: sum.splits option.splits if_splits)

lemma deriveAndVerify_fails_same:
  "deriveAndVerify W p st = (Inl err, st') \<Longrightarrow> st' = st"
  by (auto simp: deriveAndVerify_def getMasterRecord_def Let_def split_def
      split: sum.splits option.splits if_splits)

lemma getMasterKey_Some_cases:
  assumes "getMasterKey W e st = (Some key, st')"
  shows "(cachedKey st = Some key \<and> st' = st)
       \<or> (\<exists>p st1. deriveAndVerify W p st = (Inr key, st1)
              \<and> (st' = st1 \<or> st' = setCachedKey key (t_store e) st1))"
  using assms
  by (auto simp: getMasterKey_def getCachedKey_def
      split: option.splits prod.splits if_splits sum.splits)

lemma getMasterKey_vault_key:
  assumes "cache_derived st" and "getMasterKey W e st = (Some key, st')"
  shows "vault_key key \<and> cache_derived st'"
proof -
  from getMasterKey_Some_cases[OF assms(2)] consider
    (cached) "cachedKey st = Some key" "st' = st"
  | (derived) p st1 where "deriveAndVerify W p st = (Inr key, st1)"
      "st' = st1 \<or> st' = setCachedKey key (t_store e) st1"
    by blast
  then show ?thesis
  proof cases
    case cached
    with assms(1) show ?thesis by (simp add: cache_derived_def)
  next
    case derived
    note dv = derived(1) and st' = derived(2)
    from deriveAndVerify_returns_deriveKey[OF dv]
    have k: "vault_key key" and c: "cachedKey st1 = cachedKey st"
      by (auto simp: deriveKey_vault_key)
    from c assms(1) have "cache_derived st1" by (simp add: cache_derived_def)
    with k st' show ?thesis by (auto simp: cache_derived_def setCachedKey_def)
  qed
qed

lemma getMasterKey_cache_derived:
  assumes "cache_derived st"
  shows "cache_derived (snd (getMasterKey W e st))"
proof (cases "getMasterKey W e st")
  case (Pair r st')
  show ?thesis
  proof (cases r)
    case None
    with Pair have "cachedKey st' = cachedKey st"
      by (auto simp: getMasterKey_def split: option.splits prod.splits if_splits sum.splits
          dest: deriveAndVerify_fails_same)
    with assms Pair show ?thesis by (simp add: cache_derived_def)
  next
    case (Some key)
    with Pair assms show ?thesis using getMasterKey_vault_key[of st W e key st'] by simp
  qed
qed

lemma exec_cache_derived:
  assumes "cache_derived st"
  shows "cache_derived (exec W c st)"
proof -
  have g: "cache_derived (snd (getMasterKey W e st))" for e
    using assms by (rule getMasterKey_cache_derived)
  show ?thesis
  proof (cases c)
    case (Save v ty e)
    with g[of e] assms show ?thesis
      by (auto simp: addToHistory_def cache_derived_def Let_def split_def
          split: option.splits prod.splits)
  next
    case (View k e)
    with g[of e] show ?thesis
      by (auto simp: viewItem_def cache_derived_def clearKeyCache_def
          split: option.splits prod.splits sum.splits)
  next
    case (Delete k e)
    with g[of e] show ?thesis
      by (auto simp: deleteItem_def cache_derived_def split: option.splits prod.splits)
  qed
qed

lemma run_cache_derived: "cache_derived st \<Longrightarrow> cache_derived (run W cs st)"
  unfolding run_def by (induction cs arbitrary: st) (simp_all add: exec_cache_derived)

lemma cache_derived_fresh: "cache_derived (fresh_vault r)"
  by (simp add: cache_derived_def fresh_vault_def)

lemma demo_vault_opens:
  "deriveAndVerify stub_gcm (lit ''pw'') demo_vault = (Inr demo_key, demo_vault)"
  by (simp add: deriveAndVerify_def getMasterRecord_def demo_vault_def demo_db_def
      demo_record_def demo_key_def stub_gcm_def aesDecrypt_def marker_roundtrip Let_def)

lemma fresh_vault_first_key:
  "fst (getMasterKey stub_gcm (demo_env (Some (lit ''hunter2'')) False)
         (run stub_gcm [] (fresh_vault demo_rng)))
   = Some (deriveKey (lit ''hunter2'') (map demo_rng [0..<32]))"
  by (simp add: run_def getMasterKey_def getCachedKey_def fresh_vault_def demo_env_def
      deriveAndVerify_def getMasterRecord_def empty_db_def Let_def getRandomValues_def
      aesEncrypt_def split_def lit_def)

text \<open>
  C4 as stated, for every derivation of the program, fails: the beta module's
  \<open>deriveKeyFromPassphrase\<close> asks PBKDF2 for 100,000 iterations of SHA-256.
\<close>

theorem beta_derivation_counterexample:
  "(case deriveKeyFromPassphrase (lit ''hunter2'') (replicate 16 0) of
      None \<Rightarrow> False
    | Some (key, s) \<Rightarrow>
        kdf_iterations (derivation key) = 100000
        \<and> \<not> (250000 \<le> kdf_iterations (derivation key))
        \<and> kdf_hash (derivation key) = SHA_256
        \<and> kdf_hash (derivation key) \<noteq> SHA_512)"
  by (simp add: deriveKeyFromPassphrase_def subtle_deriveKey_def PBKDF2_ITERATIONS_def Let_def)

text \<open>
  C4, amended. Every key derivation of the vault module (\<open>deriveKey\<close>, which
  \<open>deriveAndVerify\<close> calls on both of its paths) uses PBKDF2 with 250,000 iterations of
  SHA-512 on the encoded passphrase and yields a 256-bit AES-GCM key that is not
  extractable; no path skips the iteration count, for every key that \<open>getMasterKey\<close>
  hands out in any state the vault reaches, cached or not, was derived this way. The beta
  module's \<open>deriveKeyFromPassphrase\<close> uses PBKDF2 with 100,000 iterations of SHA-256 and
  also yields a 256-bit AES-GCM key.
\<close>

theorem derivation_parameters:
  "(deriveAndVerify W p st = (Inr key, st') \<longrightarrow>
      kdf_iterations (derivation key) = 250000 \<and> kdf_hash (derivation key) = SHA_512
      \<and> aes_length key = 256 \<and> \<not> extractable key
      \<and> material (base key) = TextEncoder_encode p)
   \<and> (getMasterKey W e (run W cs (fresh_vault r)) = (Some key', st'') \<longrightarrow>
      kdf_iterations (derivation key') = 250000 \<and> kdf_hash (derivation key') = SHA_512
      \<and> aes_length key' = 256 \<and> \<not> extractable key')
   \<and> (deriveKeyFromPassphrase q s = Some (bkey, s') \<longrightarrow>
      kdf_iterations (derivation bkey) = 100000 \<and> kdf_hash (derivation bkey) = SHA_256
      \<and> aes_length bkey = 256 \<and> material (base bkey) = TextEncoder_encode q)"
proof (intro conjI impI)
  assume dv: "deriveAndVerify W p st = (Inr key, st')"
  from deriveAndVerify_returns_deriveKey(1)[OF dv] obtain s0 where k: "key = deriveKey p s0" ..
  show "kdf_iterations (derivation key) = 250000" "kdf_hash (derivation key) = SHA_512"
    "aes_length key = 256" "\<not> extractable key" "material (base key) = TextEncoder_encode p"
    by (simp_all add: k deriveKey_def subtle_deriveKey_def subtle_importKey_def
        PBKDF2_ITERS_def Let_def)
next
  assume g: "getMasterKey W e (run W cs (fresh_vault r)) = (Some key', st'')"
  have "cache_derived (run W cs (fresh_vault r))"
    by (rule run_cache_derived) (rule cache_derived_fresh)
  from getMasterKey_vault_key[OF this g] have "vault_key key'" ..
  then show "kdf_iterations (derivation key') = 250000" "kdf_hash (derivation key') = SHA_512"
    "aes_length key' = 256" "\<not> extractable key'"
    by (simp_all add: vault_key_def PBKDF2_ITERS_def)
next
  assume b: "deriveKeyFromPassphrase q s = Some (bkey, s')"
  then show "kdf_iterations (derivation bkey) = 100000" "kdf_hash (derivation bkey) = SHA_256"
    "aes_length bkey = 256" "material (base bkey) = TextEncoder_encode q"
    by (auto simp: deriveKeyFromPassphrase_def subtle_deriveKey_def subtle_importKey_def
        PBKDF2_ITERATIONS_def Let_def)
qed

theorem derivation_parameters_witness:
  "deriveAndVerify stub_gcm (lit ''pw'') demo_vault = (Inr demo_key, demo_vault)
   \<and> kdf_iterations (derivation demo_key) = 250000
   \<and> kdf_hash (derivation demo_key) = SHA_512
   \<and> fst (getMasterKey stub_gcm (demo_env (Some (lit ''hunter2'')) False)
            (run stub_gcm [] (fresh_vault demo_rng)))
       = Some (deriveKey (lit ''hunter2'') (map demo_rng [0..<32]))
   \<and> kdf_iterations (derivation (deriveKey (lit ''hunter2'') (map demo_rng [0..<32]))) = 250000
   \<and> deriveKeyFromPassphrase (lit ''hunter2'') (replicate 16 0)
       = Some (fst (the (deriveKeyFromPassphrase (lit ''hunter2'') (replicate 16 0))),
               replicate 16 0)
   \<and> kdf_iterations
         (derivation (fst (the (deriveKeyFromPassphrase (lit ''hunter2'') (replicate 16 0)))))
       = 100000"
proof -
  let ?e = "demo_env (Some (lit ''hunter2'')) False"
  let ?g = "getMasterKey stub_gcm ?e (run stub_gcm [] (fresh_vault demo_rng))"
  let ?k = "deriveKey (lit ''hunter2'') (map demo_rng [0..<32])"
  let ?b = "fst (the (deriveKeyFromPassphrase (lit ''hunter2'') (replicate 16 0)))"
  have h1: "deriveAndVerify stub_gcm (lit ''pw'') demo_vault = (Inr demo_key, demo_vault)"
    by (rule demo_vault_opens)
  have h2: "?g = (Some ?k, snd ?g)"
    using fresh_vault_first_key by (metis prod.collapse)
  have h3: "deriveKeyFromPassphrase (lit ''hunter2'') (replicate 16 0) = Some (?b, replicate 16 0)"
    by (simp add: deriveKeyFromPassphrase_def Let_def)
  note t = derivation_parameters[where W = stub_gcm and p = "lit ''pw''" and st = demo_vault
      and key = demo_key and st' = demo_vault and e = ?e and cs = "[]" and r = demo_rng
      and key' = ?k and st'' = "snd ?g" and q = "lit ''hunter2''" and s = "replicate 16 0"
      and bkey = ?b and s' = "replicate 16 0"]
  from t h1 have a: "kdf_iterations (derivation demo_key) = 250000"
    "kdf_hash (derivation demo_key) = SHA_512" by blast+
  from t h2 have b: "kdf_iterations (derivation ?k) = 250000" by blast
  from t h3 have c: "kdf_iterations (derivation ?b) = 100000" by blast
  show ?thesis using h1 a fresh_vault_first_key b h3 c by blast
qed

section \<open>The history limit\<close>

lemma fold_store_delete:
  "fold (\<lambda>item. store_delete (fst item)) xs d
     = d\<lparr>history := filter (\<lambda>row. fst row \<notin> fst ` set xs) (history d)\<rparr>"
proof (induction xs arbitrary: d)
  case Nil
  show ?case by simp
next
  case (Cons x xs)
  let ?d = "store_delete (fst x) d"
  have "fold (\<lambda>item. store_delete (fst item)) (x # xs) d
        = fold (\<lambda>item. store_delete (fst item)) xs ?d" by simp
  also have "\<dots> = ?d\<lparr>history := filter (\<lambda>row. fst row \<notin> fst ` set xs) (history ?d)\<rparr>"
    by (rule Cons.IH)
  also have "\<dots> = d\<lparr>history := filter (\<lambda>row. fst row \<notin> fst ` set xs)
                        (filter (\<lambda>row. fst row \<noteq> fst x) (history d))\<rparr>"
    by (simp add: store_delete_def)
  also have "filter (\<lambda>row. fst row \<notin> fst ` set xs) (filter (\<lambda>row. fst row \<noteq> fst x) (history d))
        = filter (\<lambda>row. fst row \<notin> fst ` set (x # xs)) (history d)"
    by (auto intro: filter_cong)
  finally show ?case .
qed

lemma filter_take_keys:
  assumes "distinct (map fst h)"
  shows "filter (\<lambda>row. fst row \<notin> fst ` set (take n h)) h = drop n h"
proof -
  let ?P = "\<lambda>row. fst row \<notin> fst ` set (take n h)"
  have "distinct (map fst (take n h) @ map fst (drop n h))"
    using assms by (metis append_take_drop_id map_append)
  then have disj: "fst ` set (take n h) \<inter> fst ` set (drop n h) = {}" by simp
  have 1: "filter ?P (take n h) = []" by (auto simp: filter_empty_conv)
  have 2: "filter ?P (drop n h) = drop n h" using disj by (auto simp: filter_id_conv)
  have "filter ?P h = filter ?P (take n h) @ filter ?P (drop n h)"
    by (metis append_take_drop_id filter_append)
  then show ?thesis by (simp add: 1 2)
qed

lemma enforceLimit_ordered:
  assumes "sorted_wrt (<) (map fst (history d))"
  shows "enforceLimit d = d\<lparr>history := drop (length (history d) - (MAX_HISTORY - 1)) (history d)\<rparr>"
proof (cases "MAX_HISTORY \<le> length (history d)")
  case False
  then show ?thesis by (simp add: enforceLimit_def Let_def MAX_HISTORY_def)
next
  case True
  from assms have s: "sorted (map fst (history d))" and dk: "distinct (map fst (history d))"
    by (simp_all add: strict_sorted_iff)
  have srt: "sort_key fst (history d) = history d" using s by (rule sort_key_id_if_sorted)
  have n: "length (history d) - MAX_HISTORY + 1 = length (history d) - (MAX_HISTORY - 1)"
    using True by (simp add: MAX_HISTORY_def)
  have "enforceLimit d
        = fold (\<lambda>item. store_delete (fst item))
            (take (length (history d) - MAX_HISTORY + 1) (sort_key fst (history d))) d"
    using True by (simp add: enforceLimit_def Let_def)
  also have "\<dots> = fold (\<lambda>item. store_delete (fst item))
            (take (length (history d) - (MAX_HISTORY - 1)) (history d)) d"
    by (simp only: srt n)
  also have "\<dots> = d\<lparr>history := drop (length (history d) - (MAX_HISTORY - 1)) (history d)\<rparr>"
    by (simp only: fold_store_delete filter_take_keys[OF dk])
  finally show ?thesis .
qed

lemma recent_rows_sorted: "recent_rows d \<Longrightarrow> sorted_wrt (<) (map fst (history d))"
  by (simp add: recent_rows_def)

lemma save_step:
  assumes "rows_inv d"
  shows "rows_inv (store_add x (enforceLimit d))"
proof -
  let ?h = "history d" and ?g = "keygen d"
  let ?k = "length ?h - (MAX_HISTORY - 1)"
  from assms have rr: "length ?h < ?g" "map fst ?h = [?g - length ?h..<?g]"
    and len: "length ?h = min MAX_HISTORY (?g - 1)"
    by (simp_all add: rows_inv_def recent_rows_def)
  have e: "enforceLimit d = d\<lparr>history := drop ?k ?h\<rparr>"
    using assms by (intro enforceLimit_ordered recent_rows_sorted) (simp add: rows_inv_def)
  have keys: "map fst (drop ?k ?h) = [?g - length ?h + ?k..<?g]"
    by (simp add: drop_map[symmetric] rr(2))
  have l: "length (drop ?k ?h) = min (MAX_HISTORY - 1) (length ?h)"
    by (simp add: MAX_HISTORY_def)
  show ?thesis
    using rr len keys l
    by (auto simp: rows_inv_def recent_rows_def store_add_def e MAX_HISTORY_def min_def)
qed


lemma rows_inv_cong:
  "history d' = history d \<Longrightarrow> keygen d' = keygen d \<Longrightarrow> rows_inv d' = rows_inv d"
  by (simp add: rows_inv_def recent_rows_def)

lemma deriveAndVerify_rows:
  assumes "db st = Some d" and "deriveAndVerify W p st = (r, st')"
  shows "\<exists>d'. db st' = Some d' \<and> history d' = history d \<and> keygen d' = keygen d"
  using assms
  by (auto simp: deriveAndVerify_def getMasterRecord_def putMasterRecord_def Let_def split_def
      split: option.splits sum.splits if_splits)

lemma getMasterKey_rows:
  assumes "db st = Some d"
  shows "\<exists>d'. db (snd (getMasterKey W e st)) = Some d' \<and> history d' = history d
          \<and> keygen d' = keygen d"
proof -
  have dv: "\<exists>d'. db st' = Some d' \<and> history d' = history d \<and> keygen d' = keygen d"
    if "deriveAndVerify W p st = (r, st')" for p r st'
    using assms that by (rule deriveAndVerify_rows)
  show ?thesis using assms
    by (auto simp: getMasterKey_def setCachedKey_def
        split: option.splits prod.splits sum.splits dest: dv)
qed

lemma addToHistory_unchanged:
  "v = [] \<or> db st = None \<Longrightarrow> addToHistory W v ty e st = st"
  by (auto simp: addToHistory_def)

lemma addToHistory_no_key:
  "getMasterKey W e st = (None, st1) \<Longrightarrow> v \<noteq> [] \<Longrightarrow> db st = Some d
   \<Longrightarrow> addToHistory W v ty e st = st1"
  by (simp add: addToHistory_def)

lemma addToHistory_saved:
  assumes "getMasterKey W e st = (Some key, st1)" and "v \<noteq> []" and "db st = Some d"
    and "db st1 = Some d1"
  shows "addToHistory W v ty e st =
     st1\<lparr>db := Some (store_add
              \<lparr>iv = iv (fst (aesEncrypt W v key (rng st1))),
               encryptedData = encryptedData (fst (aesEncrypt W v key (rng st1))),
               entry_type = ty, timestamp = t_stamp e\<rparr> (enforceLimit d1)),
         rng := snd (aesEncrypt W v key (rng st1))\<rparr>"
  using assms by (simp add: addToHistory_def Let_def split_def)

lemma addToHistory_rows_inv:
  assumes "db st = Some d" and "rows_inv d"
  shows "\<exists>d'. db (addToHistory W v ty e st) = Some d' \<and> rows_inv d'"
proof -
  obtain key st1 where g: "getMasterKey W e st = (key, st1)" by (cases "getMasterKey W e st")
  then have "snd (getMasterKey W e st) = st1" by simp
  with getMasterKey_rows[OF assms(1), of W e] obtain d1 where
    d1: "db st1 = Some d1" and h: "history d1 = history d" and kg: "keygen d1 = keygen d"
    by metis
  from assms(2) have inv1: "rows_inv d1" using rows_inv_cong[OF h kg] by simp
  show ?thesis
  proof (cases "v = []")
    case True
    then have "addToHistory W v ty e st = st" by (simp add: addToHistory_unchanged)
    with assms show ?thesis by simp
  next
    case v: False
    show ?thesis
    proof (cases key)
      case None
      with v g assms(1) have "addToHistory W v ty e st = st1"
        by (simp add: addToHistory_no_key)
      with d1 inv1 show ?thesis by simp
    next
      case (Some k)
      from addToHistory_saved[OF g[unfolded Some] v assms(1) d1, of ty]
      show ?thesis using save_step[OF inv1] by simp
    qed
  qed
qed

lemma saves_rows_inv:
  "db st = Some d \<Longrightarrow> rows_inv d \<Longrightarrow> \<exists>d'. db (saves W cs st) = Some d' \<and> rows_inv d'"
proof (induction cs arbitrary: st d)
  case Nil
  then show ?case by (simp add: saves_def)
next
  case (Cons c cs)
  obtain v ty e where c: "c = (v, ty, e)" by (cases c)
  from addToHistory_rows_inv[OF Cons.prems, of W v ty e] obtain d1 where
    "db (addToHistory W v ty e st) = Some d1" "rows_inv d1" by auto
  from Cons.IH[OF this] show ?case by (simp add: saves_def c)
qed







lemma deriveAndVerify_succeeds:
  assumes aead: "\<forall>key nonce m. gcm_decrypt W key nonce (gcm_encrypt W key nonce m) = Some m"
    and "opens_with W p st"
  shows "\<exists>key st1. deriveAndVerify W p st = (Inr key, st1) \<and> opens_with W p st1"
proof -
  from assms(2) obtain d where d: "db st = Some d"
    by (auto simp: opens_with_def split: option.splits)
  show ?thesis
  proof (cases "meta d 1")
    case None
    with d aead show ?thesis
      by (simp add: deriveAndVerify_def getMasterRecord_def putMasterRecord_def opens_with_def
          aesEncrypt_def getRandomValues_def Let_def)
  next
    case (Some m)
    with d assms(2) have "gcm_decrypt W (deriveKey p (salt m)) (iv m) (encryptedData m)
         = Some (TextEncoder_encode VERIFY_PLAIN)" by (simp add: opens_with_def)
    from deriveAndVerify_opens[OF d Some this] assms(2) show ?thesis by simp
  qed
qed

lemma getMasterKey_succeeds:
  assumes aead: "\<forall>key nonce m. gcm_decrypt W key nonce (gcm_encrypt W key nonce m) = Some m"
    and "opens_with W p st" and "p \<noteq> []"
    and "modal e = Some (Some p, False) \<or> modal e = Some (Some p, True)"
  shows "\<exists>key st1. getMasterKey W e st = (Some key, st1) \<and> opens_with W p st1"
proof -
  from deriveAndVerify_succeeds[OF aead assms(2)] obtain key st1 where
    dv: "deriveAndVerify W p st = (Inr key, st1)" and o: "opens_with W p st1" by blast
  have o': "opens_with W p (setCachedKey key t st1)" for t
    using o by (simp add: opens_with_def setCachedKey_def)
  show ?thesis
  proof (cases "getCachedKey (t_lookup e) st")
    case None
    with assms(3,4) dv o o' show ?thesis by (auto simp: getMasterKey_def)
  next
    case (Some k)
    with assms(2) show ?thesis by (simp add: getMasterKey_def)
  qed
qed

lemma addToHistory_succeeds:
  assumes aead: "\<forall>key nonce m. gcm_decrypt W key nonce (gcm_encrypt W key nonce m) = Some m"
    and "opens_with W p st" and "p \<noteq> []" and "answers p (v, ty, e)" and "db st = Some d"
  shows "opens_with W p (addToHistory W v ty e st)
       \<and> (\<exists>d'. db (addToHistory W v ty e st) = Some d' \<and> keygen d' = keygen d + 1)"
proof -
  from assms(4) have v: "v \<noteq> []"
    and m: "modal e = Some (Some p, False) \<or> modal e = Some (Some p, True)"
    by (simp_all add: answers_def)
  from getMasterKey_succeeds[OF aead assms(2,3) m] obtain key st1 where
    g: "getMasterKey W e st = (Some key, st1)" and o: "opens_with W p st1" by blast
  from g have "snd (getMasterKey W e st) = st1" by simp
  with getMasterKey_rows[OF assms(5), of W e] obtain d1 where
    d1: "db st1 = Some d1" and kg: "keygen d1 = keygen d" by metis
  have kge: "keygen (enforceLimit d1) = keygen d1"
    by (simp add: enforceLimit_def Let_def fold_store_delete)
  from o d1 have "opens_with W p (st1\<lparr>db := Some (store_add x (enforceLimit d1)), rng := r'\<rparr>)"
    for x r'
    by (simp add: opens_with_def meta_store_add meta_enforceLimit)
  then show ?thesis
    using addToHistory_saved[OF g v assms(5) d1, of ty] kg kge
    by (simp add: store_add_def)
qed

lemma saves_succeed:
  assumes aead: "\<forall>key nonce m. gcm_decrypt W key nonce (gcm_encrypt W key nonce m) = Some m"
    and "p \<noteq> []"
  shows "opens_with W p st \<Longrightarrow> db st = Some d \<Longrightarrow> list_all (answers p) cs
         \<Longrightarrow> \<exists>d'. db (saves W cs st) = Some d' \<and> keygen d' = keygen d + length cs"
proof (induction cs arbitrary: st d)
  case Nil
  then show ?case by (simp add: saves_def)
next
  case (Cons c cs)
  obtain v ty e where c: "c = (v, ty, e)" by (cases c)
  from Cons.prems(3) c have a: "answers p (v, ty, e)" and rest: "list_all (answers p) cs"
    by simp_all
  from addToHistory_succeeds[OF aead Cons.prems(1) assms(2) a Cons.prems(2)] obtain d1 where
    o: "opens_with W p (addToHistory W v ty e st)"
    and d1: "db (addToHistory W v ty e st) = Some d1" "keygen d1 = keygen d + 1" by blast
  from Cons.IH[OF o d1(1) rest] d1(2) show ?case by (simp add: saves_def c)
qed

lemma stub_gcm_correct:
  "gcm_decrypt stub_gcm key nonce (gcm_encrypt stub_gcm key nonce m) = Some m"
  by (simp add: stub_gcm_def)



section \<open>Encrypting and decrypting a value\<close>

lemma aesDecrypt_aesEncrypt:
  assumes "\<forall>nonce m. gcm_decrypt W K nonce (gcm_encrypt W K nonce m) = Some m"
  shows "aesDecrypt W (iv (fst (aesEncrypt W P K r))) (encryptedData (fst (aesEncrypt W P K r))) K
         = Inr (TextDecoder_decode (TextEncoder_encode P))"
  using assms by (simp add: aesDecrypt_def aesEncrypt_def getRandomValues_def)

lemma bom_lost: "TextDecoder_decode (TextEncoder_encode [0xFEFF, 0x61]) = [0x61]"
  by (simp add: TextDecoder_decode_def TextEncoder_encode_def is_lead_surrogate_def
      is_trail_surrogate_def utf8_bytes_def utf8_lead_def strip_bom_def utf16_units_def)

lemma lone_surrogate_lost: "TextDecoder_decode (TextEncoder_encode [0xD83D]) = [0xFFFD]"
  by (simp add: TextDecoder_decode_def TextEncoder_encode_def is_lead_surrogate_def
      is_trail_surrogate_def utf8_bytes_def utf8_lead_def strip_bom_def utf16_units_def)

lemma leading_bom_lost:
  assumes "\<forall>nonce m. gcm_decrypt W K nonce (gcm_encrypt W K nonce m) = Some m"
  shows "aesDecrypt W (iv (fst (aesEncrypt W [0xFEFF, 0x61] K r)))
           (encryptedData (fst (aesEncrypt W [0xFEFF, 0x61] K r))) K = Inr [0x61]"
  by (simp add: aesDecrypt_aesEncrypt[OF assms] bom_lost)

lemma unpaired_surrogate_lost:
  assumes "\<forall>nonce m. gcm_decrypt W K nonce (gcm_encrypt W K nonce m) = Some m"
  shows "aesDecrypt W (iv (fst (aesEncrypt W [0xD83D] K r)))
           (encryptedData (fst (aesEncrypt W [0xD83D] K r))) K = Inr [0xFFFD]"
  by (simp add: aesDecrypt_aesEncrypt[OF assms] lone_surrogate_lost)

text \<open>
  C5 as stated, for every string, fails twice. The decoder removes a leading U+FEFF: the
  two-unit string U+FEFF \<open>a\<close> comes back as \<open>a\<close>. The encoder replaces an unpaired
  surrogate: the one-unit string U+D83D comes back as U+FFFD. The cipher is not involved:
  by \<open>leading_bom_lost\<close> and \<open>unpaired_surrogate_lost\<close> the same happens under every
  cipher that decrypts what it encrypted; the statement below takes the stand-in.
\<close>

theorem aes_roundtrip_counterexample:
  "aesDecrypt stub_gcm (iv (fst (aesEncrypt stub_gcm [0xFEFF, 0x61] demo_key demo_rng)))
      (encryptedData (fst (aesEncrypt stub_gcm [0xFEFF, 0x61] demo_key demo_rng))) demo_key
     = Inr [0x61]
   \<and> aesDecrypt stub_gcm (iv (fst (aesEncrypt stub_gcm [0xFEFF, 0x61] demo_key demo_rng)))
      (encryptedData (fst (aesEncrypt stub_gcm [0xFEFF, 0x61] demo_key demo_rng))) demo_key
     \<noteq> Inr [0xFEFF, 0x61]
   \<and> aesDecrypt stub_gcm (iv (fst (aesEncrypt stub_gcm [0xD83D] demo_key demo_rng)))
      (encryptedData (fst (aesEncrypt stub_gcm [0xD83D] demo_key demo_rng))) demo_key
     = Inr [0xFFFD]
   \<and> aesDecrypt stub_gcm (iv (fst (aesEncrypt stub_gcm [0xD83D] demo_key demo_rng)))
      (encryptedData (fst (aesEncrypt stub_gcm [0xD83D] demo_key demo_rng))) demo_key
     \<noteq> Inr [0xD83D]"
proof -
  have ok: "\<forall>nonce m. gcm_decrypt stub_gcm demo_key nonce (gcm_encrypt stub_gcm demo_key nonce m)
              = Some m"
    by (simp add: stub_gcm_correct)
  show ?thesis
    by (simp add: aesDecrypt_aesEncrypt[OF ok] bom_lost lone_surrogate_lost)
qed

text \<open>
  C5, amended. For every string \<open>P\<close> that is well formed (no unpaired surrogate) and does
  not start with U+FEFF, and every key \<open>K\<close> under which the platform's cipher decrypts
  what it encrypted, \<open>aesDecrypt\<close> applied to the nonce and ciphertext that
  \<open>aesEncrypt(P, K)\<close> returned, with the same key, returns \<open>P\<close>.
\<close>

theorem aes_roundtrip:
  assumes "isWellFormed P" and "\<not> startsWithBOM P"
    and "\<forall>nonce m. gcm_decrypt W K nonce (gcm_encrypt W K nonce m) = Some m"
  shows "aesDecrypt W (iv (fst (aesEncrypt W P K r))) (encryptedData (fst (aesEncrypt W P K r))) K
         = Inr P"
  using assms by (simp add: aesDecrypt_aesEncrypt text_roundtrip)

theorem aes_roundtrip_witness:
  "isWellFormed (lit ''Tr0ub4dor&3'') \<and> \<not> startsWithBOM (lit ''Tr0ub4dor&3'')
   \<and> (\<forall>nonce m. gcm_decrypt stub_gcm demo_key nonce (gcm_encrypt stub_gcm demo_key nonce m)
          = Some m)
   \<and> aesDecrypt stub_gcm (iv (fst (aesEncrypt stub_gcm (lit ''Tr0ub4dor&3'') demo_key demo_rng)))
        (encryptedData (fst (aesEncrypt stub_gcm (lit ''Tr0ub4dor&3'') demo_key demo_rng)))
        demo_key
       = Inr (lit ''Tr0ub4dor&3'')"
proof -
  have h1: "isWellFormed (lit ''Tr0ub4dor&3'')"
    by (simp add: lit_def is_lead_surrogate_def is_trail_surrogate_def)
  have h2: "\<not> startsWithBOM (lit ''Tr0ub4dor&3'')"
    by (simp add: lit_def startsWithBOM_def)
  have h3: "\<forall>nonce m. gcm_decrypt stub_gcm demo_key nonce (gcm_encrypt stub_gcm demo_key nonce m)
              = Some m"
    by (simp add: stub_gcm_correct)
  show ?thesis using aes_roundtrip[OF h1 h2 h3, of demo_rng] h1 h2 h3 by blast
qed

section \<open>Two scenarios\<close>

text \<open>
  The first save on a new vault creates the master record and one row with key 1, and a
  reveal of that row with the same passphrase shows the value that was saved. After 101
  saves the row with key 1 is gone and the rows with keys 2 to 101 are there. Both hold
  under any cipher that decrypts what it encrypted.
\<close>

lemma first_save_then_reveal:
  assumes aead: "\<forall>key nonce m. gcm_decrypt W key nonce (gcm_encrypt W key nonce m) = Some m"
    and p: "p \<noteq> []" and v: "v \<noteq> []" "isWellFormed v" "\<not> startsWithBOM v"
    and e: "modal e = Some (Some p, False)" and e': "modal e' = Some (Some p, False)"
  shows "\<exists>d m x. db (addToHistory W v ty e (fresh_vault r)) = Some d
          \<and> meta d 1 = Some m \<and> history d = [(1, x)]
          \<and> viewItem W 1 e' (addToHistory W v ty e (fresh_vault r))
              = (Some v, addToHistory W v ty e (fresh_vault r))"
proof -
  define st where "st = fresh_vault r"
  define s where "s = map r [0..<32]"
  define n where "n = map r [32..<44]"
  define key where "key = deriveKey p s"
  define m :: master_record where "m = \<lparr>iv = n,
     encryptedData = gcm_encrypt W key n (TextEncoder_encode VERIFY_PLAIN), salt = s\<rparr>"
  define d1 where "d1 = empty_db\<lparr>meta := (meta empty_db)(1 \<mapsto> m)\<rparr>"
  define st1 where "st1 = st\<lparr>db := Some d1, rng := (\<lambda>i. r (44 + i))\<rparr>"
  have f: "db st = Some empty_db" "meta empty_db 1 = None" "rng st = r"
    "cachedKey st = None"
    by (simp_all add: st_def fresh_vault_def empty_db_def)
  have dv: "deriveAndVerify W p st = (Inr key, st1)"
    using deriveAndVerify_first[OF f(1,2), of W p]
    by (simp only: f(3) s_def[symmetric] n_def[symmetric] key_def[symmetric] m_def[symmetric]
        d1_def[symmetric] st1_def[symmetric])
  have g: "getMasterKey W e st = (Some key, st1)"
    using p e dv f(4) by (simp add: getMasterKey_def getCachedKey_def)
  have d1: "db st1 = Some d1" "cachedKey st1 = None"
    using f(4) by (simp_all add: st1_def)
  define c where "c = fst (aesEncrypt W v key (rng st1))"
  define x :: entry where
    "x = \<lparr>iv = iv c, encryptedData = encryptedData c, entry_type = ty, timestamp = t_stamp e\<rparr>"
  define d2 where "d2 = store_add x (enforceLimit d1)"
  define st2 where "st2 = st1\<lparr>db := Some d2, rng := snd (aesEncrypt W v key (rng st1))\<rparr>"
  have saved: "addToHistory W v ty e st = st2"
    using addToHistory_saved[OF g v(1) f(1) d1(1), of ty]
    by (simp only: c_def[symmetric] x_def[symmetric] d2_def[symmetric] st2_def[symmetric])
  have h1: "history d1 = []" "keygen d1 = 1" "meta d1 1 = Some m"
    by (simp_all add: d1_def empty_db_def)
  have el: "enforceLimit d1 = d1" using h1(1) by (simp add: enforceLimit_def MAX_HISTORY_def)
  have d2: "db st2 = Some d2" "meta d2 1 = Some m" "history d2 = [(1, x)]"
    "cachedKey st2 = None"
    using h1 d1(2) by (simp_all add: st2_def d2_def el store_add_def)
  have sm: "salt m = s" "iv m = n"
    "encryptedData m = gcm_encrypt W key n (TextEncoder_encode VERIFY_PLAIN)"
    by (simp_all add: m_def)
  have opens: "gcm_decrypt W (deriveKey p (salt m)) (iv m) (encryptedData m)
               = Some (TextEncoder_encode VERIFY_PLAIN)"
    using aead by (simp only: sm key_def[symmetric])
  have dv2: "deriveAndVerify W p st2 = (Inr key, st2)"
    using deriveAndVerify_opens[OF d2(1,2) opens] by (simp only: sm key_def[symmetric])
  have g2: "getMasterKey W e' st2 = (Some key, st2)"
    using p e' dv2 d2(4) by (simp add: getMasterKey_def getCachedKey_def)
  have "aesDecrypt W (iv c) (encryptedData c) key = Inr (TextDecoder_decode (TextEncoder_encode v))"
    unfolding c_def using aead by (intro aesDecrypt_aesEncrypt) simp
  then have dec: "aesDecrypt W (iv x) (encryptedData x) key = Inr v"
    using v(2,3) by (simp add: x_def text_roundtrip)
  have m1: "map_of (history d2) 1 = Some x" by (simp add: d2(3))
  have view: "viewItem W 1 e' st2 = (Some v, st2)"
    using g2 d2(1) m1 dec by (simp add: viewItem_def)
  show ?thesis
    unfolding st_def[symmetric] saved using d2(1,2,3) view by blast
qed

lemma eviction_scenario:
  assumes aead: "\<forall>key nonce m. gcm_decrypt W key nonce (gcm_encrypt W key nonce m) = Some m"
    and "p \<noteq> []" and "list_all (answers p) cs" and "length cs = 101"
  shows "\<exists>d. db (saves W cs (fresh_vault r)) = Some d \<and> map fst (history d) = [2..<102]"
proof -
  have f: "db (fresh_vault r) = Some empty_db" by (simp add: fresh_vault_def)
  have o: "opens_with W p (fresh_vault r)"
    by (simp add: opens_with_def fresh_vault_def empty_db_def)
  from saves_succeed[OF aead assms(2) o f assms(3)] obtain d where
    d: "db (saves W cs (fresh_vault r)) = Some d" and kg: "keygen d = 102"
    by (auto simp: empty_db_def assms(4))
  have "rows_inv empty_db" by (simp add: rows_inv_def recent_rows_def empty_db_def)
  from saves_rows_inv[OF f this, of W cs] d have "rows_inv d" by simp
  with kg have "map fst (history d) = [2..<102]"
    by (simp add: rows_inv_def recent_rows_def MAX_HISTORY_def)
  with d show ?thesis by simp
qed

end
